theory Spec2Isabelle
  imports Main "HOL-Library.Multiset" "HOL-Library.List_Lexorder"
begin

section \<open>Strings and arrays of the host language\<close>

text \<open>
  A JavaScript string is a sequence of UTF-16 code units and \<^verbatim>\<open>length\<close> counts them;
  the labels of the list use code units beyond one byte (the arrows and the ellipsis), so
  a string is a list of code units here. \<open>str\<close> embeds an ASCII literal.
\<close>

type_synonym jsString = "nat list"

definition str :: "string \<Rightarrow> jsString" where
  "str s = map of_char s"

text \<open>The single code unit U+2026, appended by every truncation.\<close>

definition ellipsis :: jsString where
  "ellipsis = [8230]"

text \<open>\<^verbatim>\<open>a || b\<close> on strings: the empty string is falsy.\<close>

definition orElse :: "jsString \<Rightarrow> jsString \<Rightarrow> jsString" where
  "orElse a b = (if a = [] then b else a)"

text \<open>
  \<^verbatim>\<open>Array.prototype.slice(start, end)\<close> and \<^verbatim>\<open>String.prototype.slice\<close> on integer
  arguments: a negative index counts from the end, both ends are clamped to the length.
\<close>

definition js_slice :: "'a list \<Rightarrow> int \<Rightarrow> int \<Rightarrow> 'a list" where
  "js_slice xs start fin =
     (let n = int (length xs);
          k = (if start < 0 then max (n + start) 0 else min start n);
          f = (if fin < 0 then max (n + fin) 0 else min fin n)
      in take (nat (f - k)) (drop (nat k) xs))"

text \<open>
  \<^verbatim>\<open>String.prototype.trim\<close> removes leading and trailing white space and line
  terminators.
\<close>

definition isWhiteSpace :: "nat \<Rightarrow> bool" where
  "isWhiteSpace c \<longleftrightarrow>
     c \<in> {9, 10, 11, 12, 13, 32, 160, 5760, 8232, 8233, 8239, 8287, 12288, 65279}
     \<or> (8192 \<le> c \<and> c \<le> 8202)"

definition trim :: "jsString \<Rightarrow> jsString" where
  "trim s = rev (dropWhile isWhiteSpace (rev (dropWhile isWhiteSpace s)))"

text \<open>\<^verbatim>\<open>String(n)\<close> for an integer \<open>n\<close>: its decimal digits, with a sign when negative.\<close>

fun digits :: "nat \<Rightarrow> jsString" where
  "digits n = (if n < 10 then [48 + n] else digits (n div 10) @ [48 + n mod 10])"

declare digits.simps [simp del]

definition numberToString :: "int \<Rightarrow> jsString" where
  "numberToString i = (if i < 0 then 45 # digits (nat (- i)) else digits (nat i))"

text \<open>\<^verbatim>\<open>Math.ceil(x / d)\<close> for integers \<open>x\<close> and \<open>d > 0\<close>.\<close>

definition ceilDiv :: "int \<Rightarrow> int \<Rightarrow> int" where
  "ceilDiv x d = - ((- x) div d)"

text \<open>
  \<^verbatim>\<open>[...items].sort(compare)\<close>: the sort is stable, and \<open>compare a b\<close> is negative, zero
  or positive. Insertion from the right keeps an element in front of the later elements
  it compares equal to.
\<close>

fun insertBy :: "('a \<Rightarrow> 'a \<Rightarrow> int) \<Rightarrow> 'a \<Rightarrow> 'a list \<Rightarrow> 'a list" where
  "insertBy compare x [] = [x]"
| "insertBy compare x (y # ys) =
     (if compare x y \<le> 0 then x # y # ys else y # insertBy compare x ys)"

fun jsSort :: "('a \<Rightarrow> 'a \<Rightarrow> int) \<Rightarrow> 'a list \<Rightarrow> 'a list" where
  "jsSort compare [] = []"
| "jsSort compare (x # xs) = insertBy compare x (jsSort compare xs)"

text \<open>
  A \<^verbatim>\<open>Map\<close> keeps its entries in insertion order: \<^verbatim>\<open>set\<close> on a present key replaces
  the value where the key stands, \<^verbatim>\<open>delete\<close> removes the entry, \<^verbatim>\<open>values()\<close> lists
  the values in order.
\<close>

fun mapSet :: "('k \<times> 'v) list \<Rightarrow> 'k \<Rightarrow> 'v \<Rightarrow> ('k \<times> 'v) list" where
  "mapSet [] k v = [(k, v)]"
| "mapSet ((k', v') # m) k v = (if k' = k then (k, v) # m else (k', v') # mapSet m k v)"

fun newMap :: "('k \<times> 'v) list \<Rightarrow> ('k \<times> 'v) list \<Rightarrow> ('k \<times> 'v) list" where
  "newMap m [] = m"
| "newMap m ((k, v) # entries) = newMap (mapSet m k v) entries"

fun mapGet :: "('k \<times> 'v) list \<Rightarrow> 'k \<Rightarrow> 'v option" where
  "mapGet [] k = None"
| "mapGet ((k', v') # m) k = (if k' = k then Some v' else mapGet m k)"

definition mapDelete :: "('k \<times> 'v) list \<Rightarrow> 'k \<Rightarrow> ('k \<times> 'v) list" where
  "mapDelete m k = filter (\<lambda>e. fst e \<noteq> k) m"

definition mapValues :: "('k \<times> 'v) list \<Rightarrow> 'v list" where
  "mapValues m = map snd m"

section \<open>Constants (state/constants.ts)\<close>

definition LIST_MAX_ITEMS :: int where "LIST_MAX_ITEMS = 20"
definition SCENES_PER_PAGE :: int where "SCENES_PER_PAGE = LIST_MAX_ITEMS - 2"
definition DEVICES_PER_PAGE :: int where "DEVICES_PER_PAGE = SCENES_PER_PAGE"
definition ROOMS_PER_PAGE :: int where "ROOMS_PER_PAGE = SCENES_PER_PAGE"
definition DIM_LEVELS :: "int list" where
  "DIM_LEVELS = [0, 10, 20, 30, 40, 50, 60, 70, 80, 90, 100]"
definition DIM_LEVELS_PER_PAGE :: int where "DIM_LEVELS_PER_PAGE = SCENES_PER_PAGE"
definition LIST_ITEM_NAME_MAX_LEN :: int where "LIST_ITEM_NAME_MAX_LEN = 64"

section \<open>Data model (state/contracts.ts)\<close>

record sceneEntry =
  sceneId :: jsString
  sceneName :: jsString

record deviceEntry =
  deviceId :: jsString
  deviceName :: jsString
  deviceType :: "jsString option"
  deviceProtocol :: "jsString option"
  supportsSwitch :: "bool option"
  supportsDimmer :: "bool option"

record roomEntry =
  roomId :: jsString
  roomName :: jsString

record globalStats =
  total_devices :: int
  online :: int
  offline :: int

record deviceStats =
  onlineStatus :: jsString
  switchStatus :: jsString
  brightness :: "int option"
  capabilityReadings :: "(jsString \<times> jsString) list option"

datatype appStatus = SLoading | SReady | SExecuting | SDone | SError

datatype loadStatus = LIdle | LLoading | LReady | LError

datatype listView =
  VMain | VScenes | VRooms | VDevices | VDeviceDetail | VDeviceDim
  | VRoomAllDetail | VRoomAllDim | VFavorites

datatype listOrderPreference = Alphabetical | Reverse | Custom

datatype mainMenuItem = MScenes | MDevices | MFavorites

datatype favoriteKind = FScene | FDevice

datatype entityKind = EScene | ERoom | EDevice

record listOrderPrefs =
  order_scenes :: listOrderPreference
  order_rooms :: listOrderPreference
  order_devices :: listOrderPreference
  order_favorites :: listOrderPreference
  order_main :: listOrderPreference

record listOrderCustomIds =
  custom_scenes :: "jsString list"
  custom_rooms :: "jsString list"
  custom_devices :: "jsString list"
  custom_favorites :: "jsString list"
  custom_main :: "mainMenuItem list"

text \<open>
  The preferences; the visibility switches of the statistics panel and the schema
  version play no part in the list and are left out. \<open>renames\<close> maps an entity id to
  its display name.
\<close>

record preferences =
  listOrder :: listOrderPrefs
  listOrderCustomIds :: listOrderCustomIds
  favoritesIds :: "(favoriteKind \<times> jsString) list"
  renames :: "jsString \<rightharpoonup> jsString"

record appState =
  listView :: listView
  scenes :: "sceneEntry list"
  listPageIndex :: int
  status :: appStatus
  errorMessage :: "jsString option"
  rooms :: "roomEntry list"
  roomsStatus :: loadStatus
  selectedRoomId :: "jsString option"
  devices :: "deviceEntry list"
  devicesStatus :: loadStatus
  selectedDeviceId :: "jsString option"
  globalStats :: "globalStats option"
  roomStats :: "globalStats option"
  deviceStats :: "deviceStats option"
  focusedListIndex :: int
  preferences :: preferences
  allDevices :: "deviceEntry list"

text \<open>
  The actions of the list: the tap, the page change, the five navigation actions and the
  start of an execution. The remaining actions of the source carry loaded data,
  statistics and preference changes into the state.
\<close>

datatype action =
  TAP int "int option"
  | LIST_PAGE int
  | NAV_VIEW listView
  | NAV_ROOM jsString
  | NAV_DEVICE jsString
  | NAV_FAVORITE_DEVICE jsString
  | NAV_ROOM_ALL
  | EXECUTE_START

section \<open>The reducer (state/reducer.ts)\<close>

fun reduce :: "appState \<Rightarrow> action \<Rightarrow> appState" where
  "reduce state (TAP selectedIndex gestureTaps) = state\<lparr>focusedListIndex := selectedIndex\<rparr>"
| "reduce state (LIST_PAGE pageIndex) = state\<lparr>listPageIndex := pageIndex\<rparr>"
| "reduce state (NAV_VIEW view) =
     (let s1 = state\<lparr>listView := view, listPageIndex := 0, focusedListIndex := 0\<rparr>;
          s2 = (if view = VRooms then s1\<lparr>roomsStatus := LLoading\<rparr> else s1);
          s3 = (if view = VDevices then s2\<lparr>selectedDeviceId := None, deviceStats := None\<rparr>
                else s2);
          s4 = (if view = VDeviceDetail \<or> view = VDeviceDim then s3
                else s3\<lparr>selectedDeviceId := None, deviceStats := None\<rparr>)
      in if view = VMain \<or> view = VScenes \<or> view = VRooms \<or> view = VFavorites
         then s4\<lparr>roomStats := None\<rparr> else s4)"
| "reduce state (NAV_ROOM rid) =
     state\<lparr>listView := VDevices, listPageIndex := 0, focusedListIndex := 0,
       selectedRoomId := Some rid, devicesStatus := LLoading, roomStats := None\<rparr>"
| "reduce state (NAV_DEVICE did) =
     state\<lparr>listView := VDeviceDetail, listPageIndex := 0, focusedListIndex := 0,
       selectedDeviceId := Some did\<rparr>"
| "reduce state (NAV_FAVORITE_DEVICE did) =
     state\<lparr>listView := VDeviceDetail, listPageIndex := 0, focusedListIndex := 0,
       selectedDeviceId := Some did, selectedRoomId := None, devices := allDevices state\<rparr>"
| "reduce state NAV_ROOM_ALL =
     state\<lparr>listView := VRoomAllDetail, listPageIndex := 0, focusedListIndex := 0,
       selectedDeviceId := None\<rparr>"
| "reduce state EXECUTE_START = state\<lparr>status := SExecuting\<rparr>"

definition DEFAULT_PREFERENCES :: preferences where
  "DEFAULT_PREFERENCES =
     \<lparr>listOrder = \<lparr>order_scenes = Alphabetical, order_rooms = Alphabetical,
        order_devices = Alphabetical, order_favorites = Alphabetical,
        order_main = Alphabetical\<rparr>,
      listOrderCustomIds = \<lparr>custom_scenes = [], custom_rooms = [], custom_devices = [],
        custom_favorites = [], custom_main = [MScenes, MDevices, MFavorites]\<rparr>,
      favoritesIds = [],
      renames = Map.empty\<rparr>"

definition buildInitialState :: appState where
  "buildInitialState =
     \<lparr>listView = VMain, scenes = [], listPageIndex = 0, status = SLoading,
      errorMessage = None, rooms = [], roomsStatus = LIdle, selectedRoomId = None,
      devices = [], devicesStatus = LIdle, selectedDeviceId = None, globalStats = None,
      roomStats = None, deviceStats = None, focusedListIndex = 0,
      preferences = DEFAULT_PREFERENCES, allDevices = []\<rparr>"

section \<open>Selectors (state/selectors.ts)\<close>

text \<open>
  \<^verbatim>\<open>String.prototype.localeCompare\<close> with base sensitivity belongs to the host's
  collation, not to the program: every function that sorts takes the comparison as its
  first argument \<open>lc\<close>.
\<close>

type_synonym localeCompare = "jsString \<Rightarrow> jsString \<Rightarrow> int"

definition getDisplayName ::
  "appState \<Rightarrow> entityKind \<Rightarrow> jsString \<Rightarrow> jsString \<Rightarrow> jsString" where
  "getDisplayName state kind ident fallback =
     (let name = (case renames (preferences state) ident of Some r \<Rightarrow> r | None \<Rightarrow> fallback);
          n = orElse (trim (orElse name fallback)) fallback
      in if int (length n) \<le> LIST_ITEM_NAME_MAX_LEN then n
         else js_slice n 0 (LIST_ITEM_NAME_MAX_LEN - 1) @ ellipsis)"

text \<open>The loop of \<^verbatim>\<open>applyOrder\<close> over the explicit ids, with the map it consumes.\<close>

fun customWalk ::
  "jsString list \<Rightarrow> (jsString \<times> 'a) list \<Rightarrow> 'a list \<Rightarrow> 'a list \<times> (jsString \<times> 'a) list" where
  "customWalk [] byId ordered = (ordered, byId)"
| "customWalk (ident # ids) byId ordered =
     (case mapGet byId ident of
        Some item \<Rightarrow> customWalk ids (mapDelete byId ident) (ordered @ [item])
      | None \<Rightarrow> customWalk ids byId ordered)"

definition applyOrder ::
  "localeCompare \<Rightarrow> 'a list \<Rightarrow> ('a \<Rightarrow> jsString) \<Rightarrow> ('a \<Rightarrow> jsString)
     \<Rightarrow> listOrderPreference \<Rightarrow> jsString list \<Rightarrow> 'a list" where
  "applyOrder lc items getKey getName preference customIds =
     (if preference = Alphabetical then jsSort (\<lambda>a b. lc (getName a) (getName b)) items
      else if preference = Reverse then rev (jsSort (\<lambda>a b. lc (getName a) (getName b)) items)
      else
        (let byId = newMap [] (map (\<lambda>item. (getKey item, item)) items);
             walked = customWalk customIds byId [];
             rest = jsSort (\<lambda>a b. lc (getName a) (getName b)) (mapValues (snd walked))
         in fst walked @ rest))"

definition getOrderedScenes :: "localeCompare \<Rightarrow> appState \<Rightarrow> sceneEntry list" where
  "getOrderedScenes lc state =
     applyOrder lc (scenes state) sceneId sceneName
       (order_scenes (listOrder (preferences state)))
       (custom_scenes (listOrderCustomIds (preferences state)))"

definition getOrderedRooms :: "localeCompare \<Rightarrow> appState \<Rightarrow> roomEntry list" where
  "getOrderedRooms lc state =
     applyOrder lc (rooms state) roomId roomName
       (order_rooms (listOrder (preferences state)))
       (custom_rooms (listOrderCustomIds (preferences state)))"

definition getOrderedDevices :: "localeCompare \<Rightarrow> appState \<Rightarrow> deviceEntry list" where
  "getOrderedDevices lc state =
     applyOrder lc (devices state) deviceId deviceName
       (order_devices (listOrder (preferences state)))
       (custom_devices (listOrderCustomIds (preferences state)))"

record favoriteItem =
  fav_type :: favoriteKind
  fav_id :: jsString
  fav_displayName :: jsString
  fav_device :: "deviceEntry option"
  fav_scene :: "sceneEntry option"

text \<open>
  The name a favourite is sorted by (\<^verbatim>\<open>nameA\<close> and \<^verbatim>\<open>nameB\<close> of the two comparison
  functions in \<^verbatim>\<open>getOrderedFavorites\<close>): the rename, else the name of the scene or
  device, else the empty string.
\<close>

definition favoriteSortName ::
  "appState \<Rightarrow> (jsString \<times> sceneEntry) list \<Rightarrow> (jsString \<times> deviceEntry) list
     \<Rightarrow> favoriteKind \<times> jsString \<Rightarrow> jsString" where
  "favoriteSortName state scenesById devicesById a =
     (case renames (preferences state) (snd a) of
        Some r \<Rightarrow> r
      | None \<Rightarrow>
          (if fst a = FScene
           then (case mapGet scenesById (snd a) of Some s \<Rightarrow> sceneName s | None \<Rightarrow> [])
           else (case mapGet devicesById (snd a) of Some d \<Rightarrow> deviceName d | None \<Rightarrow> [])))"

definition getOrderedFavorites :: "localeCompare \<Rightarrow> appState \<Rightarrow> favoriteItem list" where
  "getOrderedFavorites lc state =
     (let scenesById = newMap [] (map (\<lambda>s. (sceneId s, s)) (scenes state));
          devicesById = newMap []
            (map (\<lambda>d. (deviceId d, d)) (allDevices state)
             @ map (\<lambda>d. (deviceId d, d)) (devices state));
          nameOf = favoriteSortName state scenesById devicesById;
          items =
            (if order_favorites (listOrder (preferences state)) = Alphabetical
             then jsSort (\<lambda>a b. lc (nameOf a) (nameOf b)) (favoritesIds (preferences state))
             else if order_favorites (listOrder (preferences state)) = Reverse
             then jsSort (\<lambda>a b. lc (nameOf b) (nameOf a)) (favoritesIds (preferences state))
             else favoritesIds (preferences state))
      in map (\<lambda>(kind, ident).
           if kind = FScene
           then (let scene = mapGet scenesById ident;
                     displayName = getDisplayName state EScene ident
                       (case scene of Some s \<Rightarrow> sceneName s | None \<Rightarrow> str ''Scene'')
                 in \<lparr>fav_type = FScene, fav_id = ident, fav_displayName = displayName,
                      fav_device = None, fav_scene = scene\<rparr>)
           else (let device = mapGet devicesById ident;
                     displayName = getDisplayName state EDevice ident
                       (case device of Some d \<Rightarrow> deviceName d | None \<Rightarrow> str ''Device'')
                 in \<lparr>fav_type = FDevice, fav_id = ident, fav_displayName = displayName,
                      fav_device = device, fav_scene = None\<rparr>)) items)"

definition MAIN_MENU_ITEMS :: "mainMenuItem list" where
  "MAIN_MENU_ITEMS = [MScenes, MDevices, MFavorites]"

fun MAIN_MENU_LABEL :: "mainMenuItem \<Rightarrow> jsString" where
  "MAIN_MENU_LABEL MScenes = str ''Scenes''"
| "MAIN_MENU_LABEL MDevices = str ''Devices''"
| "MAIN_MENU_LABEL MFavorites = str ''Favorites''"

definition getMainMenuOrderedItems :: "localeCompare \<Rightarrow> appState \<Rightarrow> mainMenuItem list" where
  "getMainMenuOrderedItems lc state =
     (let hasFavorites = length (favoritesIds (preferences state)) > 0;
          items =
            (if order_main (listOrder (preferences state)) = Alphabetical
             then jsSort (\<lambda>a b. lc (MAIN_MENU_LABEL a) (MAIN_MENU_LABEL b)) MAIN_MENU_ITEMS
             else if order_main (listOrder (preferences state)) = Reverse
             then jsSort (\<lambda>a b. lc (MAIN_MENU_LABEL b) (MAIN_MENU_LABEL a)) MAIN_MENU_ITEMS
             else if length (custom_main (listOrderCustomIds (preferences state))) > 0
             then custom_main (listOrderCustomIds (preferences state))
             else MAIN_MENU_ITEMS)
      in if hasFavorites then items else filter (\<lambda>x. x \<noteq> MFavorites) items)"

definition getMainMenuOrderedViews :: "localeCompare \<Rightarrow> appState \<Rightarrow> listView list" where
  "getMainMenuOrderedViews lc state =
     map (\<lambda>item. case item of MDevices \<Rightarrow> VRooms | MScenes \<Rightarrow> VScenes | MFavorites \<Rightarrow> VFavorites)
       (getMainMenuOrderedItems lc state)"

text \<open>\<^verbatim>\<open>ordered[index] ?? null\<close>: an index outside the array reads \<^verbatim>\<open>undefined\<close>.\<close>

definition at :: "'a list \<Rightarrow> int \<Rightarrow> 'a option" where
  "at xs i = (if 0 \<le> i \<and> i < int (length xs) then Some (xs ! nat i) else None)"

definition getSceneByIndex :: "localeCompare \<Rightarrow> appState \<Rightarrow> int \<Rightarrow> sceneEntry option" where
  "getSceneByIndex lc state index = at (getOrderedScenes lc state) index"

definition getRoomByIndex :: "localeCompare \<Rightarrow> appState \<Rightarrow> int \<Rightarrow> roomEntry option" where
  "getRoomByIndex lc state index = at (getOrderedRooms lc state) index"

definition getDeviceByIndex :: "localeCompare \<Rightarrow> appState \<Rightarrow> int \<Rightarrow> deviceEntry option" where
  "getDeviceByIndex lc state index = at (getOrderedDevices lc state) index"

definition getFavoriteByIndex :: "localeCompare \<Rightarrow> appState \<Rightarrow> int \<Rightarrow> favoriteItem option" where
  "getFavoriteByIndex lc state index = at (getOrderedFavorites lc state) index"

definition getSelectedRoom :: "appState \<Rightarrow> roomEntry option" where
  "getSelectedRoom state =
     (case selectedRoomId state of
        None \<Rightarrow> None
      | Some ident \<Rightarrow> if ident = [] then None else find (\<lambda>r. roomId r = ident) (rooms state))"

definition getSelectedDevice :: "appState \<Rightarrow> deviceEntry option" where
  "getSelectedDevice state =
     (case selectedDeviceId state of
        None \<Rightarrow> None
      | Some ident \<Rightarrow> if ident = [] then None else find (\<lambda>d. deviceId d = ident) (devices state))"

definition roomHasDimmable :: "appState \<Rightarrow> bool" where
  "roomHasDimmable state = list_ex (\<lambda>d. supportsDimmer d = Some True) (devices state)"

definition roomHasSwitchable :: "appState \<Rightarrow> bool" where
  "roomHasSwitchable state = list_ex (\<lambda>d. supportsSwitch d = Some True) (devices state)"

text \<open>
  The index of the device at a list position of the devices view: \<open>-1\<close> for the
  \<^verbatim>\<open>All\<close> entry, \<open>-2\<close> for a control or an empty slot.
\<close>

definition getDeviceIndexFromDevicesList ::
  "localeCompare \<Rightarrow> appState \<Rightarrow> int \<Rightarrow> int \<Rightarrow> int" where
  "getDeviceIndexFromDevicesList lc state page listIndex =
     (let devs = getOrderedDevices lc state;
          totalContentItems = 1 + int (length devs);
          needNext = totalContentItems > DEVICES_PER_PAGE - 1;
          firstPageContentSlots = (if needNext then DEVICES_PER_PAGE - 1 else totalContentItems);
          firstPageDeviceCount = firstPageContentSlots - 1 - (if needNext then 1 else 0)
      in if page = 0 then
           (if listIndex = 1 then - 1
            else if listIndex \<le> 0 then - 2
            else (let deviceIndex = listIndex - 2
                  in if deviceIndex \<ge> 0 \<and> deviceIndex < firstPageDeviceCount then deviceIndex
                     else - 2))
         else
           (let startIndex = firstPageDeviceCount + (page - 1) * (DEVICES_PER_PAGE - 1);
                slotIndex = listIndex - 1;
                deviceIndex = startIndex + slotIndex
            in if deviceIndex \<ge> 0 \<and> deviceIndex < int (length devs) then deviceIndex else - 2))"

definition getDimLevelByStateAndIndex :: "appState \<Rightarrow> int \<Rightarrow> int option" where
  "getDimLevelByStateAndIndex state listIndex =
     (if listView state \<noteq> VDeviceDim \<and> listView state \<noteq> VRoomAllDim then None
      else if listIndex \<le> 0 then None
      else
        (let page = listPageIndex state;
             levelIndex = (if page = 0 then listIndex - 1 else DIM_LEVELS_PER_PAGE + (listIndex - 1))
         in if levelIndex < 0 \<or> levelIndex \<ge> int (length DIM_LEVELS) then None
            else at DIM_LEVELS levelIndex))"

section \<open>The page composer (render/composer.ts)\<close>

definition LABEL_PREVIOUS :: jsString where "LABEL_PREVIOUS = 8592 # str '' Previous''"
definition LABEL_BACK :: jsString where "LABEL_BACK = 8592 # str '' Back''"
definition LABEL_NEXT :: jsString where "LABEL_NEXT = str ''Next '' @ [8594]"
definition LABEL_ALL :: jsString where "LABEL_ALL = str ''All''"
definition LABEL_LOADING :: jsString where "LABEL_LOADING = str ''Loading'' @ ellipsis"

definition truncateName :: "jsString \<Rightarrow> jsString \<Rightarrow> jsString" where
  "truncateName name fallback =
     (let n = orElse name fallback
      in if int (length n) \<le> LIST_ITEM_NAME_MAX_LEN then n
         else js_slice n 0 (LIST_ITEM_NAME_MAX_LEN - 1) @ ellipsis)"

text \<open>\<^verbatim>\<open>Array(k).fill('')\<close>: \<open>k\<close> empty strings.\<close>

definition emptySlots :: "int \<Rightarrow> jsString list" where
  "emptySlots k = replicate (nat k) []"

definition sceneNamesForListView :: "localeCompare \<Rightarrow> appState \<Rightarrow> jsString list" where
  "sceneNamesForListView lc state =
     (let scs = getOrderedScenes lc state; n = int (length scs)
      in if n = 0 then (if status state = SLoading then [] else [str ''No scenes''])
         else
           (let firstPageSlots = (if n \<le> SCENES_PER_PAGE then SCENES_PER_PAGE else SCENES_PER_PAGE - 1);
                totalPages = (if n \<le> SCENES_PER_PAGE then 1
                              else 1 + ceilDiv (n - firstPageSlots) SCENES_PER_PAGE);
                page = min (listPageIndex state) (totalPages - 1);
                isFirst = (page = 0);
                isLast = (page = totalPages - 1);
                contentSlots = (if isFirst then firstPageSlots else SCENES_PER_PAGE);
                startIndex = (if page = 0 then 0 else firstPageSlots + (page - 1) * SCENES_PER_PAGE);
                pageScenes = js_slice scs startIndex (startIndex + contentSlots);
                sceneNames = map (\<lambda>s. truncateName
                    (getDisplayName state EScene (sceneId s) (sceneName s)) (str ''Scene'')) pageScenes;
                padding = (if isFirst \<and> isLast then []
                           else emptySlots (contentSlots - int (length sceneNames)));
                scenePart = sceneNames @ padding;
                prevLabel = (if isFirst then LABEL_BACK else LABEL_PREVIOUS)
            in if isFirst \<and> isLast then prevLabel # scenePart
               else if isFirst then prevLabel # scenePart @ [LABEL_NEXT]
               else if isLast then prevLabel # scenePart
               else prevLabel # scenePart @ [LABEL_NEXT]))"

definition roomNamesForListView :: "localeCompare \<Rightarrow> appState \<Rightarrow> jsString list" where
  "roomNamesForListView lc state =
     (let rms = getOrderedRooms lc state; n = int (length rms)
      in if n = 0 then
           (if roomsStatus state = LLoading then [LABEL_LOADING]
            else if roomsStatus state = LError then [str ''Failed to load rooms'']
            else [str ''No rooms''])
         else
           (let firstPageSlots = (if n \<le> ROOMS_PER_PAGE then ROOMS_PER_PAGE else ROOMS_PER_PAGE - 1);
                totalPages = (if n \<le> ROOMS_PER_PAGE then 1
                              else 1 + ceilDiv (n - firstPageSlots) ROOMS_PER_PAGE);
                page = min (listPageIndex state) (totalPages - 1);
                isFirst = (page = 0);
                isLast = (page = totalPages - 1);
                contentSlots = (if isFirst then firstPageSlots else ROOMS_PER_PAGE);
                startIndex = (if page = 0 then 0 else firstPageSlots + (page - 1) * ROOMS_PER_PAGE);
                pageRooms = js_slice rms startIndex (startIndex + contentSlots);
                roomNames = map (\<lambda>r. truncateName
                    (getDisplayName state ERoom (roomId r) (roomName r)) (str ''Room'')) pageRooms;
                padding = (if isFirst \<and> isLast then []
                           else emptySlots (contentSlots - int (length roomNames)));
                roomPart = roomNames @ padding;
                prevLabel = (if isFirst then LABEL_BACK else LABEL_PREVIOUS)
            in if isFirst \<and> isLast then prevLabel # roomPart
               else if isFirst then prevLabel # roomPart @ [LABEL_NEXT]
               else if isLast then prevLabel # roomPart
               else prevLabel # roomPart @ [LABEL_NEXT]))"

text \<open>The label of a device in the devices view.\<close>

definition deviceLabel :: "appState \<Rightarrow> deviceEntry \<Rightarrow> jsString" where
  "deviceLabel state d =
     truncateName (getDisplayName state EDevice (deviceId d) (deviceName d)) (str ''Device'')"

definition deviceNamesForListView :: "localeCompare \<Rightarrow> appState \<Rightarrow> jsString list" where
  "deviceNamesForListView lc state =
     (let devs = getOrderedDevices lc state; n = int (length devs)
      in if n = 0 then
           (if devicesStatus state = LLoading then [LABEL_BACK, LABEL_LOADING]
            else if devicesStatus state = LError then [LABEL_BACK, str ''Failed to load devices'']
            else [LABEL_BACK, str ''No devices''])
         else
           (let totalContentItems = 1 + n;
                needNext = totalContentItems > DEVICES_PER_PAGE - 1;
                firstPageContentSlots = (if needNext then DEVICES_PER_PAGE - 1 else totalContentItems);
                firstPageDeviceCount = firstPageContentSlots - 1 - (if needNext then 1 else 0);
                totalPages = (if needNext
                              then 1 + ceilDiv (n - firstPageDeviceCount) (DEVICES_PER_PAGE - 1)
                              else 1);
                page = min (listPageIndex state) (max 0 (totalPages - 1));
                isFirst = (page = 0);
                isLast = (page = totalPages - 1)
            in if isFirst then
                 (let firstPageDevices = js_slice devs 0 firstPageDeviceCount;
                      deviceNames = map (deviceLabel state) firstPageDevices;
                      contentPart = LABEL_ALL # deviceNames;
                      padding = (if isFirst \<and> isLast then []
                                 else emptySlots (firstPageContentSlots - int (length contentPart)));
                      part = contentPart @ padding;
                      prevLabel = LABEL_BACK
                  in if isFirst \<and> isLast then prevLabel # part
                     else prevLabel # part @ [LABEL_NEXT])
               else
                 (let startIndex = firstPageDeviceCount + (page - 1) * (DEVICES_PER_PAGE - 1);
                      contentSlots = (if isLast \<and> n - startIndex < DEVICES_PER_PAGE - 1
                                      then n - startIndex else DEVICES_PER_PAGE - 1);
                      pageDevices = js_slice devs startIndex (startIndex + contentSlots);
                      deviceNames = map (deviceLabel state) pageDevices;
                      padding = emptySlots (contentSlots - int (length deviceNames));
                      devicePart = deviceNames @ padding
                  in LABEL_PREVIOUS # devicePart @ (if isLast then [] else [LABEL_NEXT]))))"

definition deviceDetailItemNames :: "appState \<Rightarrow> jsString list" where
  "deviceDetailItemNames state =
     (let device = getSelectedDevice state;
          base = (if (case device of Some d \<Rightarrow> supportsSwitch d = Some True | None \<Rightarrow> False)
                  then [LABEL_BACK, str ''On'', str ''Off''] else [LABEL_BACK])
      in if (case device of Some d \<Rightarrow> supportsDimmer d = Some True | None \<Rightarrow> False)
         then base @ [str ''Dim''] else base)"

definition roomAllDetailItemNames :: "appState \<Rightarrow> jsString list" where
  "roomAllDetailItemNames state =
     (let base = (if roomHasSwitchable state then [LABEL_BACK, str ''On'', str ''Off'']
                  else [LABEL_BACK])
      in if roomHasDimmable state then base @ [str ''Dim''] else base)"

definition dimLevelItemNames :: "appState \<Rightarrow> jsString list" where
  "dimLevelItemNames state =
     (let page = listPageIndex state;
          totalLevels = int (length DIM_LEVELS);
          firstPageSlots = DIM_LEVELS_PER_PAGE;
          totalPages = (if totalLevels \<le> firstPageSlots then 1
                        else 1 + ceilDiv (totalLevels - firstPageSlots) DIM_LEVELS_PER_PAGE);
          isFirst = (page = 0);
          isLast = (page = totalPages - 1);
          startIndex = (if page = 0 then 0 else firstPageSlots + (page - 1) * DIM_LEVELS_PER_PAGE);
          contentSlots =
            (if isFirst then firstPageSlots
             else if page = totalPages - 1
             then totalLevels - firstPageSlots - (totalPages - 2) * DIM_LEVELS_PER_PAGE
             else DIM_LEVELS_PER_PAGE - 1);
          levelNames = map numberToString (js_slice DIM_LEVELS startIndex (startIndex + contentSlots));
          padding = (if isFirst \<and> isLast then []
                     else emptySlots (contentSlots - int (length levelNames)));
          part = levelNames @ padding;
          prevLabel = (if isFirst then LABEL_BACK else LABEL_PREVIOUS)
      in if isFirst \<and> isLast then prevLabel # part
         else if isFirst then prevLabel # part @ [LABEL_NEXT]
         else if isLast then prevLabel # part
         else prevLabel # part @ [LABEL_NEXT])"

definition favoriteNamesForListView :: "localeCompare \<Rightarrow> appState \<Rightarrow> jsString list" where
  "favoriteNamesForListView lc state =
     (let favs = getOrderedFavorites lc state; n = int (length favs)
      in if n = 0 then [LABEL_BACK, str ''No favorites'']
         else
           (let firstPageSlots = (if n \<le> SCENES_PER_PAGE then SCENES_PER_PAGE else SCENES_PER_PAGE - 1);
                totalPages = (if n \<le> SCENES_PER_PAGE then 1
                              else 1 + ceilDiv (n - firstPageSlots) SCENES_PER_PAGE);
                page = min (listPageIndex state) (totalPages - 1);
                isFirst = (page = 0);
                isLast = (page = totalPages - 1);
                contentSlots = (if isFirst then firstPageSlots else SCENES_PER_PAGE);
                startIndex = (if page = 0 then 0 else firstPageSlots + (page - 1) * SCENES_PER_PAGE);
                pageFavorites = js_slice favs startIndex (startIndex + contentSlots);
                names = map (\<lambda>f. truncateName (fav_displayName f) (str ''Scene'')) pageFavorites;
                padding = (if isFirst \<and> isLast then []
                           else emptySlots (contentSlots - int (length names)));
                part = names @ padding;
                prevLabel = (if isFirst then LABEL_BACK else LABEL_PREVIOUS)
            in if isFirst \<and> isLast then prevLabel # part
               else if isFirst then prevLabel # part @ [LABEL_NEXT]
               else if isLast then prevLabel # part
               else prevLabel # part @ [LABEL_NEXT]))"

definition listItemNamesForState :: "localeCompare \<Rightarrow> appState \<Rightarrow> jsString list" where
  "listItemNamesForState lc state =
     (if listView state = VMain then map MAIN_MENU_LABEL (getMainMenuOrderedItems lc state)
      else if listView state = VScenes then sceneNamesForListView lc state
      else if listView state = VRooms then roomNamesForListView lc state
      else if listView state = VFavorites then favoriteNamesForListView lc state
      else if listView state = VDeviceDetail then deviceDetailItemNames state
      else if listView state = VDeviceDim then dimLevelItemNames state
      else if listView state = VRoomAllDetail then roomAllDetailItemNames state
      else if listView state = VRoomAllDim then dimLevelItemNames state
      else deviceNamesForListView lc state)"

definition getLastListIndex :: "localeCompare \<Rightarrow> appState \<Rightarrow> int" where
  "getLastListIndex lc state = max 0 (int (length (listItemNamesForState lc state)) - 1)"

definition getTotalPages :: "localeCompare \<Rightarrow> appState \<Rightarrow> int" where
  "getTotalPages lc state =
     (if listView state = VMain then 1
      else if listView state = VFavorites then
        (let n = int (length (getOrderedFavorites lc state))
         in if n = 0 then 1
            else (let first = (if n \<le> SCENES_PER_PAGE then SCENES_PER_PAGE else SCENES_PER_PAGE - 1)
                  in if n \<le> SCENES_PER_PAGE then 1 else 1 + ceilDiv (n - first) SCENES_PER_PAGE))
      else if listView state = VDeviceDetail \<or> listView state = VRoomAllDetail then 1
      else if listView state = VDeviceDim \<or> listView state = VRoomAllDim then
        (let totalLevels = int (length DIM_LEVELS)
         in if totalLevels \<le> DIM_LEVELS_PER_PAGE then 1
            else 1 + ceilDiv (totalLevels - DIM_LEVELS_PER_PAGE) DIM_LEVELS_PER_PAGE)
      else if listView state = VScenes then
        (let n = int (length (getOrderedScenes lc state))
         in if n = 0 then 1
            else (let first = (if n \<le> SCENES_PER_PAGE then SCENES_PER_PAGE else SCENES_PER_PAGE - 1)
                  in if n \<le> SCENES_PER_PAGE then 1 else 1 + ceilDiv (n - first) SCENES_PER_PAGE))
      else if listView state = VRooms then
        (let n = int (length (getOrderedRooms lc state))
         in if n = 0 then 1
            else (let first = (if n \<le> ROOMS_PER_PAGE then ROOMS_PER_PAGE else ROOMS_PER_PAGE - 1)
                  in if n \<le> ROOMS_PER_PAGE then 1 else 1 + ceilDiv (n - first) ROOMS_PER_PAGE))
      else if listView state = VDevices then
        (let n = int (length (getOrderedDevices lc state))
         in if n = 0 then 1
            else (let totalContentItems = 1 + n;
                      needNext = totalContentItems > DEVICES_PER_PAGE - 1;
                      firstPageDeviceCount = (if needNext then DEVICES_PER_PAGE - 1 - 1 - 1 else n)
                  in if needNext
                     then 1 + ceilDiv (n - firstPageDeviceCount) (DEVICES_PER_PAGE - 1)
                     else 1))
      else 1)"

definition getFirstPageContentSlots :: "localeCompare \<Rightarrow> appState \<Rightarrow> int" where
  "getFirstPageContentSlots lc state =
     (if listView state = VMain then int (length (getMainMenuOrderedItems lc state))
      else if listView state = VFavorites then
        (let n = int (length (getOrderedFavorites lc state))
         in if n \<le> SCENES_PER_PAGE then SCENES_PER_PAGE else SCENES_PER_PAGE - 1)
      else if listView state = VDeviceDetail then int (length (deviceDetailItemNames state)) - 1
      else if listView state = VRoomAllDetail then int (length (roomAllDetailItemNames state)) - 1
      else if listView state = VDeviceDim \<or> listView state = VRoomAllDim then DIM_LEVELS_PER_PAGE
      else if listView state = VScenes then
        (let n = int (length (scenes state))
         in if n \<le> SCENES_PER_PAGE then SCENES_PER_PAGE else SCENES_PER_PAGE - 1)
      else if listView state = VRooms then
        (let n = int (length (rooms state))
         in if n \<le> ROOMS_PER_PAGE then ROOMS_PER_PAGE else ROOMS_PER_PAGE - 1)
      else if listView state = VDevices then
        (let n = int (length (devices state))
         in if n = 0 then 1
            else (let totalContentItems = 1 + n;
                      needNext = totalContentItems > DEVICES_PER_PAGE - 1
                  in if needNext then DEVICES_PER_PAGE - 1 else totalContentItems))
      else 1)"

section \<open>The input mapper (input/actions.ts)\<close>

text \<open>
  A raw event of the display bridge. The event type arrives as an untyped value; an
  absent field is \<open>JUndefined\<close>. The selected index is \<open>None\<close> when it is not a number.
\<close>

datatype jsValue = JUndefined | JNull | JNumber int | JString jsString

datatype jsNumber = NaN | Num int

record listEvent =
  le_eventType :: jsValue
  currentSelectItemIndex :: "int option"

record sysEvent =
  se_eventType :: jsValue

record evenHubEvent =
  sysEvent :: "sysEvent option"
  listEvent :: "listEvent option"

text \<open>
  The bridge's library is not part of the program. Its enumeration \<^verbatim>\<open>OsEventTypeList\<close>
  and the decoder \<^verbatim>\<open>OsEventTypeList.fromJson\<close> are taken as a parameter: the decoder
  returns a member of the enumeration, returns nothing, or throws.
\<close>

datatype decoded = Thrown | NoValue | EnumValue int

record osEventTypeList =
  fromJson :: "jsValue \<Rightarrow> decoded"
  CLICK_EVENT :: int
  SCROLL_TOP_EVENT :: int
  SCROLL_BOTTOM_EVENT :: int
  DOUBLE_CLICK_EVENT :: int

text \<open>
  \<^verbatim>\<open>Number(v)\<close>; the host's reading of a string as a number is the parameter
  \<open>parse\<close>.
\<close>

fun toNumber :: "(jsString \<Rightarrow> jsNumber) \<Rightarrow> jsValue \<Rightarrow> jsNumber" where
  "toNumber parse JUndefined = NaN"
| "toNumber parse JNull = Num 0"
| "toNumber parse (JNumber n) = Num n"
| "toNumber parse (JString s) = parse s"

text \<open>\<^verbatim>\<open>rawType === 3 || Number(rawType) === 3\<close>\<close>

definition isRawThree :: "(jsString \<Rightarrow> jsNumber) \<Rightarrow> jsValue \<Rightarrow> bool" where
  "isRawThree parse rawType \<longleftrightarrow> rawType = JNumber 3 \<or> toNumber parse rawType = Num 3"

definition mapEvenHubEvent ::
  "osEventTypeList \<Rightarrow> (jsString \<Rightarrow> jsNumber) \<Rightarrow> evenHubEvent option \<Rightarrow> appState option
     \<Rightarrow> action option" where
  "mapEvenHubEvent sdk parse event state =
     (case event of
        None \<Rightarrow> None
      | Some ev \<Rightarrow>
          if (case sysEvent ev of Some se \<Rightarrow> isRawThree parse (se_eventType se) | None \<Rightarrow> False)
          then Some (TAP (case state of Some st \<Rightarrow> focusedListIndex st | None \<Rightarrow> 0) (Some 2))
          else
            (case listEvent ev of
               None \<Rightarrow> None
             | Some le \<Rightarrow>
                 (let rawType = le_eventType le;
                      rawDoubleClick = isRawThree parse rawType;
                      dec = (if rawType = JUndefined \<or> rawType = JNull then NoValue
                             else fromJson sdk rawType)
                  in if dec = Thrown then None
                     else
                       (let eventType =
                              (if rawType = JUndefined \<or> rawType = JNull then None
                               else (case dec of EnumValue v \<Rightarrow> Some (Num v)
                                     | _ \<Rightarrow> Some (toNumber parse rawType)));
                            index = (case currentSelectItemIndex le of Some i \<Rightarrow> i | None \<Rightarrow> 0)
                        in if rawDoubleClick \<or> eventType = Some (Num (DOUBLE_CLICK_EVENT sdk))
                           then Some (TAP index (Some 2))
                           else if eventType = Some (Num (CLICK_EVENT sdk)) \<or> eventType = None
                           then Some (TAP index (Some 1))
                           else if eventType \<noteq> Some (Num (SCROLL_TOP_EVENT sdk))
                                 \<and> eventType \<noteq> Some (Num (SCROLL_BOTTOM_EVENT sdk))
                           then Some (TAP index (Some 1))
                           else None))))"

section \<open>The tap router (commitTap in app.ts)\<close>

text \<open>
  What a committed tap sets off, in order: the actions dispatched to the store, the
  page rebuild, and the calls to the cloud collaborator (which run on their own later).
  \<open>Committed\<close> marks the commit itself with the list position and the tap count it
  resolves.
\<close>

datatype command =
  Committed int int
  | Dispatched action
  | RefreshPage
  | LoadRooms
  | LoadDevicesForRoom jsString
  | LoadDeviceStats jsString
  | ExecuteScene jsString
  | RunDeviceSwitch jsString bool
  | RunDeviceSetLevel jsString int
  | RunAllDevicesInRoomSwitch bool
  | RunAllDimmableDevicesSetLevel int

text \<open>
  \<^verbatim>\<open>runExecuteScene\<close> up to its first suspension: nothing when the index names no scene
  or an execution is under way; otherwise the start is dispatched and the scene is sent
  for execution.
\<close>

definition runExecuteScene :: "localeCompare \<Rightarrow> appState \<Rightarrow> int \<Rightarrow> command list" where
  "runExecuteScene lc state selectedIndex =
     (case getSceneByIndex lc state selectedIndex of
        None \<Rightarrow> []
      | Some scene \<Rightarrow>
          if status state = SExecuting then []
          else [Dispatched EXECUTE_START, ExecuteScene (sceneId scene)])"

text \<open>\<^verbatim>\<open>Array.prototype.findIndex\<close>: the first index that satisfies, or \<open>-1\<close>.\<close>

fun findIndex :: "('a \<Rightarrow> bool) \<Rightarrow> 'a list \<Rightarrow> int" where
  "findIndex P [] = - 1"
| "findIndex P (x # xs) =
     (if P x then 0 else (let r = findIndex P xs in if r < 0 then - 1 else r + 1))"

text \<open>
  An id in a condition (\<^verbatim>\<open>if (deviceId)\<close>, \<^verbatim>\<open>deviceId && ...\<close>): \<^verbatim>\<open>null\<close> and the
  empty string are falsy.
\<close>

definition truthyId :: "jsString option \<Rightarrow> jsString option" where
  "truthyId ident = (if ident = Some [] then None else ident)"

definition isPaginatedList :: "listView \<Rightarrow> bool" where
  "isPaginatedList v \<longleftrightarrow>
     v = VScenes \<or> v = VRooms \<or> v = VDevices \<or> v = VFavorites \<or> v = VDeviceDim
     \<or> v = VRoomAllDetail \<or> v = VRoomAllDim"

text \<open>The first entry of a paginated list: back on the first page, else one page back.\<close>

definition backOrPrevious :: "listView \<Rightarrow> bool \<Rightarrow> int \<Rightarrow> command list" where
  "backOrPrevious parent isFirst page =
     (if isFirst then [Dispatched (NAV_VIEW parent)] else [Dispatched (LIST_PAGE (page - 1))])
     @ [RefreshPage]"

text \<open>
  What the favourites branch does with the favourite it found: a scene is executed when
  it is among the ordered scenes, a device is opened.
\<close>

definition openFavorite ::
  "localeCompare \<Rightarrow> appState \<Rightarrow> int \<Rightarrow> favoriteItem \<Rightarrow> command list" where
  "openFavorite lc state listIndex favorite =
     (if fav_type favorite = FScene then
        (let sceneIndex = findIndex (\<lambda>s. sceneId s = fav_id favorite) (getOrderedScenes lc state)
         in if sceneIndex \<ge> 0
            then Dispatched (TAP listIndex None)
                 # runExecuteScene lc (reduce state (TAP listIndex None)) sceneIndex
            else [])
      else [Dispatched (NAV_FAVORITE_DEVICE (fav_id favorite)), RefreshPage,
            LoadDeviceStats (fav_id favorite)])"

text \<open>
  The body of \<^verbatim>\<open>commitTap\<close> for a tap count and a list position, read against the
  state of the store.
\<close>

definition commitTapCommands :: "localeCompare \<Rightarrow> appState \<Rightarrow> int \<Rightarrow> int \<Rightarrow> command list" where
  "commitTapCommands lc state listIndex tapCount =
     (let lv = listView state;
          page = listPageIndex state;
          totalPages = getTotalPages lc state;
          isFirst = (page = 0);
          isLast = (page = totalPages - 1);
          lastListIndex = getLastListIndex lc state
      in
      if lv = VMain then
        (if tapCount = 1 then
           (case at (getMainMenuOrderedViews lc state) listIndex of
              Some view \<Rightarrow> [Dispatched (NAV_VIEW view), RefreshPage]
                            @ (if view = VRooms then [LoadRooms] else [])
            | None \<Rightarrow> [])
         else [])
      else if isPaginatedList lv then
        (if tapCount = 2 \<and> \<not> isFirst then [Dispatched (LIST_PAGE (page - 1)), RefreshPage]
         else if tapCount = 2 \<and> isFirst
                \<and> (listIndex = 0 \<or> lv = VScenes \<or> lv = VDevices \<or> lv = VFavorites
                     \<or> lv = VDeviceDim \<or> lv = VRoomAllDetail \<or> lv = VRoomAllDim) then
           (if lv = VDevices then [Dispatched (NAV_VIEW VRooms)]
            else if lv = VRoomAllDetail then [Dispatched (NAV_VIEW VDevices)]
            else if lv = VRoomAllDim then [Dispatched (NAV_VIEW VRoomAllDetail)]
            else if lv = VRooms then [Dispatched (NAV_VIEW VMain)]
            else if lv = VScenes then [Dispatched (NAV_VIEW VMain)]
            else if lv = VFavorites then [Dispatched (NAV_VIEW VMain)]
            else if lv = VDeviceDim then [Dispatched (NAV_VIEW VDeviceDetail)]
            else [])
           @ [RefreshPage]
         else if tapCount \<ge> 3 \<and> \<not> isLast then
           [Dispatched (LIST_PAGE (totalPages - 1)), RefreshPage]
         else if tapCount = 1 then
           (if lv = VDeviceDim then
              (if listIndex = 0 then backOrPrevious VDeviceDetail (page = 0) page
               else (case truthyId (selectedDeviceId state) of
                       None \<Rightarrow> []
                     | Some did \<Rightarrow>
                         (case getDimLevelByStateAndIndex state listIndex of
                            Some level \<Rightarrow> [RunDeviceSetLevel did level]
                          | None \<Rightarrow> [])))
            else if lv = VRoomAllDim then
              (if listIndex = 0 then backOrPrevious VRoomAllDetail (page = 0) page
               else (case getDimLevelByStateAndIndex state listIndex of
                       Some level \<Rightarrow> [RunAllDimmableDevicesSetLevel level]
                     | None \<Rightarrow> []))
            else if lv = VRoomAllDetail then
              (let hasSwitch = roomHasSwitchable state; hasDim = roomHasDimmable state
               in if listIndex = 0 then [Dispatched (NAV_VIEW VDevices), RefreshPage]
                  else if hasSwitch \<and> listIndex = 1 then [RunAllDevicesInRoomSwitch True]
                  else if hasSwitch \<and> listIndex = 2 then [RunAllDevicesInRoomSwitch False]
                  else if hasDim \<and> (if hasSwitch then listIndex = 3 else listIndex = 1)
                  then [Dispatched (NAV_VIEW VRoomAllDim), RefreshPage]
                  else [])
            else if lv = VScenes then
              (if listIndex = 0 then backOrPrevious VMain isFirst page
               else if \<not> isLast \<and> listIndex = lastListIndex
               then [Dispatched (LIST_PAGE (page + 1)), RefreshPage]
               else
                 (let firstSlots = getFirstPageContentSlots lc state;
                      actualSceneIndex =
                        (if page = 0 then listIndex - 1
                         else firstSlots + (page - 1) * SCENES_PER_PAGE + (listIndex - 1))
                  in if actualSceneIndex \<ge> 0
                        \<and> actualSceneIndex < int (length (getOrderedScenes lc state))
                     then Dispatched (TAP listIndex None)
                          # runExecuteScene lc (reduce state (TAP listIndex None)) actualSceneIndex
                     else []))
            else if lv = VFavorites then
              (if listIndex = 0 then backOrPrevious VMain isFirst page
               else if \<not> isLast \<and> listIndex = lastListIndex
               then [Dispatched (LIST_PAGE (page + 1)), RefreshPage]
               else
                 (let firstSlots = getFirstPageContentSlots lc state;
                      actualFavoriteIndex =
                        (if page = 0 then listIndex - 1
                         else firstSlots + (page - 1) * SCENES_PER_PAGE + (listIndex - 1))
                  in case getFavoriteByIndex lc state actualFavoriteIndex of
                       None \<Rightarrow> []
                     | Some favorite \<Rightarrow> openFavorite lc state listIndex favorite))
            else if lv = VRooms then
              (if listIndex = 0 then backOrPrevious VMain isFirst page
               else if \<not> isLast \<and> listIndex = lastListIndex
               then [Dispatched (LIST_PAGE (page + 1)), RefreshPage]
               else
                 (let firstSlots = getFirstPageContentSlots lc state;
                      actualRoomIndex =
                        (if page = 0 then listIndex - 1
                         else firstSlots + (page - 1) * ROOMS_PER_PAGE + (listIndex - 1))
                  in case getRoomByIndex lc state actualRoomIndex of
                       None \<Rightarrow> []
                     | Some room \<Rightarrow>
                         [Dispatched (NAV_ROOM (roomId room)), RefreshPage,
                          LoadDevicesForRoom (roomId room)]))
            else if lv = VDevices then
              (if listIndex = 0 then backOrPrevious VRooms isFirst page
               else if \<not> isLast \<and> listIndex = lastListIndex
               then [Dispatched (LIST_PAGE (page + 1)), RefreshPage]
               else
                 (let deviceIndex = getDeviceIndexFromDevicesList lc state page listIndex
                  in if deviceIndex = - 1 then [Dispatched NAV_ROOM_ALL, RefreshPage]
                     else if deviceIndex \<ge> 0 then
                       (case getDeviceByIndex lc state deviceIndex of
                          None \<Rightarrow> []
                        | Some device \<Rightarrow>
                            [Dispatched (NAV_DEVICE (deviceId device)), RefreshPage,
                             LoadDeviceStats (deviceId device)])
                     else []))
            else [])
         else [])
      else if lv = VDeviceDetail then
        (let backView = (if selectedRoomId state = None then VFavorites else VDevices)
         in if tapCount = 2 then [Dispatched (NAV_VIEW backView), RefreshPage]
            else if tapCount = 1 then
              (let device = getSelectedDevice state;
                   hasSwitch = (case device of Some d \<Rightarrow> supportsSwitch d = Some True | None \<Rightarrow> False);
                   hasDim = (case device of Some d \<Rightarrow> supportsDimmer d = Some True | None \<Rightarrow> False)
               in if listIndex = 0 then [Dispatched (NAV_VIEW backView), RefreshPage]
                  else
                    (case truthyId (selectedDeviceId state) of
                       None \<Rightarrow> []
                     | Some did \<Rightarrow>
                         if hasSwitch \<and> listIndex = 1 then [RunDeviceSwitch did True]
                         else if hasSwitch \<and> listIndex = 2 then [RunDeviceSwitch did False]
                         else if hasDim \<and> (if hasSwitch then listIndex = 3 else listIndex = 1)
                         then [Dispatched (NAV_VIEW VDeviceDim), RefreshPage, LoadDeviceStats did]
                         else []))
            else [])
      else [])"

text \<open>The store after the dispatched actions of a command list, in order.\<close>

fun applyCommands :: "appState \<Rightarrow> command list \<Rightarrow> appState" where
  "applyCommands state [] = state"
| "applyCommands state (Dispatched a # cs) = applyCommands (reduce state a) cs"
| "applyCommands state (c # cs) = applyCommands state cs"

section \<open>The gesture session (event handler and commit timer in app.ts)\<close>

text \<open>
  The variables of the gesture session. The pending commit timer is held as the time at
  which it comes due; \<open>None\<close> is \<^verbatim>\<open>null\<close>. An entry of the recent list is a position
  with its arrival time.
\<close>

record gestureSession =
  lastTapTime :: int
  lastTapIndex :: int
  tapCount :: int
  commitTimeoutId :: "int option"
  recentListIndices :: "(int \<times> int) list"

record session =
  store :: appState
  gesture :: gestureSession
  emitted :: "command list"

definition TAP_WINDOW_MS :: "bool \<Rightarrow> int" where
  "TAP_WINDOW_MS useRealGlasses = (if useRealGlasses then 800 else 400)"

definition TAP_COMMIT_MS :: "bool \<Rightarrow> int" where
  "TAP_COMMIT_MS useRealGlasses = (if useRealGlasses then 800 else 450)"

definition SCROLL_WINDOW_MS :: int where
  "SCROLL_WINDOW_MS = 400"

definition initialGesture :: gestureSession where
  "initialGesture =
     \<lparr>lastTapTime = 0, lastTapIndex = - 1, tapCount = 0, commitTimeoutId = None,
      recentListIndices = []\<rparr>"

text \<open>
  \<^verbatim>\<open>commitTap\<close>: clears the timer, routes the tap and resets position and count, which
  every path of the source does before it returns.
\<close>

definition commitTap :: "localeCompare \<Rightarrow> session \<Rightarrow> session" where
  "commitTap lc s =
     (let g = gesture s;
          cmds = commitTapCommands lc (store s) (lastTapIndex g) (tapCount g)
      in s\<lparr>store := applyCommands (store s) cmds,
           gesture := g\<lparr>commitTimeoutId := None, lastTapIndex := - 1, tapCount := 0\<rparr>,
           emitted := emitted s @ Committed (lastTapIndex g) (tapCount g) # cmds\<rparr>)"

text \<open>
  The handler of a raw event from the point where the mapper has produced a tap at
  \<open>listIndex\<close> with multiplicity \<open>gestureTaps\<close>, at clock reading \<open>now\<close>.
\<close>

definition onTap :: "bool \<Rightarrow> int \<Rightarrow> int option \<Rightarrow> int \<Rightarrow> session \<Rightarrow> session" where
  "onTap useRealGlasses listIndex taps now s =
     (let g = gesture s;
          gestureTaps = (case taps of Some t \<Rightarrow> t | None \<Rightarrow> 1);
          pushed = recentListIndices g @ [(listIndex, now)];
          cutoff = now - SCROLL_WINDOW_MS;
          recent = dropWhile (\<lambda>e. snd e < cutoff) pushed;
          uniqueIndicesInWindow = int (length (remdups (map fst recent)));
          likelyScrolling = (uniqueIndicesInWindow \<ge> 2);
          isSameItemAgain = (listIndex = lastTapIndex g
                             \<and> now - lastTapTime g \<le> TAP_WINDOW_MS useRealGlasses);
          isNewItemSingleTap = (\<not> isSameItemAgain \<and> gestureTaps = 1);
          skipCommitForScroll = (isNewItemSingleTap \<and> likelyScrolling)
      in s\<lparr>store := reduce (store s) (TAP listIndex taps),
           gesture := g\<lparr>
             lastTapTime := now,
             lastTapIndex := (if isSameItemAgain then lastTapIndex g else listIndex),
             tapCount := (if isSameItemAgain then min (tapCount g + gestureTaps) 4
                          else min gestureTaps 4),
             commitTimeoutId := (if \<not> skipCommitForScroll
                                 then Some (now + TAP_COMMIT_MS useRealGlasses) else None),
             recentListIndices := recent\<rparr>\<rparr>)"

text \<open>The callback given to \<^verbatim>\<open>hub.subscribeEvents\<close>.\<close>

definition onEvent ::
  "osEventTypeList \<Rightarrow> (jsString \<Rightarrow> jsNumber) \<Rightarrow> bool \<Rightarrow> evenHubEvent option \<Rightarrow> int
     \<Rightarrow> session \<Rightarrow> session" where
  "onEvent sdk parse useRealGlasses event now s =
     (case mapEvenHubEvent sdk parse event (Some (store s)) of
        Some (TAP listIndex taps) \<Rightarrow> onTap useRealGlasses listIndex taps now s
      | _ \<Rightarrow> s)"

text \<open>
  The timer: at clock reading \<open>now\<close> a pending commit that has come due runs
  \<^verbatim>\<open>commitTap\<close>; a timer that is not due, or was cleared, does nothing.
\<close>

definition onTimer :: "localeCompare \<Rightarrow> int \<Rightarrow> session \<Rightarrow> session" where
  "onTimer lc now s =
     (case commitTimeoutId (gesture s) of
        Some due \<Rightarrow> if due \<le> now then commitTap lc s else s
      | None \<Rightarrow> s)"

text \<open>
  A run of the session: taps (position, multiplicity, clock reading) and looks at the
  timer (clock reading), handled one after the other.
\<close>

datatype occurrence =
  Tap (pos: int) (multiplicity: int) (time: int)
  | Timer (time: int)

fun deliver :: "localeCompare \<Rightarrow> bool \<Rightarrow> session \<Rightarrow> occurrence \<Rightarrow> session" where
  "deliver lc useRealGlasses s (Tap p m t) = onTap useRealGlasses p (Some m) t s"
| "deliver lc useRealGlasses s (Timer t) = onTimer lc t s"

definition run :: "localeCompare \<Rightarrow> bool \<Rightarrow> session \<Rightarrow> occurrence list \<Rightarrow> session" where
  "run lc useRealGlasses s tr = foldl (deliver lc useRealGlasses) s tr"

section \<open>Batch outcome classification (app.ts)\<close>

datatype confirmationResult = Success | Partial | Failure

text \<open>
  \<^verbatim>\<open>confirmationResultFromCounts(successCount, total)\<close>: the three-way classification
  of a batch of per-device actions.
\<close>

definition confirmationResultFromCounts :: "int \<Rightarrow> int \<Rightarrow> confirmationResult" where
  "confirmationResultFromCounts successCount totalCount =
     (if totalCount = 0 \<or> successCount = 0 then Failure
      else if successCount = totalCount then Success
      else Partial)"

text \<open>
  \<^verbatim>\<open>runAllDevicesInRoomSwitch\<close> and \<^verbatim>\<open>runAllDimmableDevicesSetLevel\<close> share one shape:
  no target device shows a failure at once; otherwise every device is commanded in turn,
  \<open>successCount\<close> counts the commands that went through (a thrown command leaves the
  count as it is) and the counts are classified. The list \<open>oks\<close> holds, per target device
  in order, whether its command went through.
\<close>

fun countSuccesses :: "bool list \<Rightarrow> int \<Rightarrow> int" where
  "countSuccesses [] successCount = successCount"
| "countSuccesses (ok # rest) successCount =
     countSuccesses rest (if ok then successCount + 1 else successCount)"

definition runAllDevicesOutcome :: "bool list \<Rightarrow> confirmationResult" where
  "runAllDevicesOutcome oks =
     (if length oks = 0 then Failure
      else confirmationResultFromCounts (countSuccesses oks 0) (int (length oks)))"

section \<open>The slot of an entity\<close>

text \<open>
  The page and the list position at which the composer shows the \<open>i\<close>-th of \<open>n\<close>
  ordered entities, read off the slices it takes. In the devices view page 0 starts with
  Back and All and, once a Next entry is needed, holds two devices fewer than a later
  page holds entities; a later page starts with Previous.
\<close>

definition deviceSlot :: "nat \<Rightarrow> nat \<Rightarrow> int \<times> int" where
  "deviceSlot n i =
     (let firstPageDeviceCount =
            (if 1 + int n > DEVICES_PER_PAGE - 1 then DEVICES_PER_PAGE - 3 else int n)
      in if int i < firstPageDeviceCount then (0, int i + 2)
         else (1 + (int i - firstPageDeviceCount) div (DEVICES_PER_PAGE - 1),
               1 + (int i - firstPageDeviceCount) mod (DEVICES_PER_PAGE - 1)))"

text \<open>
  In the scenes, rooms and favourites views page 0 starts with Back and holds one entity
  fewer than a later page once the list needs more than one page.
\<close>

definition listSlot :: "nat \<Rightarrow> nat \<Rightarrow> int \<times> int" where
  "listSlot n i =
     (let firstPageSlots = (if int n \<le> SCENES_PER_PAGE then SCENES_PER_PAGE else SCENES_PER_PAGE - 1)
      in if int i < firstPageSlots then (0, int i + 1)
         else (1 + (int i - firstPageSlots) div SCENES_PER_PAGE,
               1 + (int i - firstPageSlots) mod SCENES_PER_PAGE))"

text \<open>
  The page of labels that the scenes, rooms and favourites views build in the same way
  from their non-empty ordered collection \<open>xs\<close> and the label of an entity; the three
  views are shown equal to it below (\<open>sceneNames_paged\<close>, \<open>roomNames_paged\<close>,
  \<open>favoriteNames_paged\<close>).
\<close>

definition pagedNames :: "'a list \<Rightarrow> ('a \<Rightarrow> jsString) \<Rightarrow> int \<Rightarrow> jsString list" where
  "pagedNames xs label pageIndex =
     (let n = int (length xs);
          firstPageSlots = (if n \<le> SCENES_PER_PAGE then SCENES_PER_PAGE else SCENES_PER_PAGE - 1);
          totalPages = (if n \<le> SCENES_PER_PAGE then 1
                        else 1 + ceilDiv (n - firstPageSlots) SCENES_PER_PAGE);
          page = min pageIndex (totalPages - 1);
          isFirst = (page = 0);
          isLast = (page = totalPages - 1);
          contentSlots = (if isFirst then firstPageSlots else SCENES_PER_PAGE);
          startIndex = (if page = 0 then 0 else firstPageSlots + (page - 1) * SCENES_PER_PAGE);
          names = map label (js_slice xs startIndex (startIndex + contentSlots));
          padding = (if isFirst \<and> isLast then []
                     else emptySlots (contentSlots - int (length names)));
          part = names @ padding;
          prevLabel = (if isFirst then LABEL_BACK else LABEL_PREVIOUS)
      in if isFirst \<and> isLast then prevLabel # part
         else if isFirst then prevLabel # part @ [LABEL_NEXT]
         else if isLast then prevLabel # part
         else prevLabel # part @ [LABEL_NEXT])"

text \<open>The page count of these three views over \<open>n\<close> entities, \<open>n > 0\<close>.\<close>

definition pagedTotalPages :: "int \<Rightarrow> int" where
  "pagedTotalPages n =
     (if n \<le> SCENES_PER_PAGE then 1
      else 1 + ceilDiv (n - (SCENES_PER_PAGE - 1)) SCENES_PER_PAGE)"

section \<open>Example inputs\<close>

text \<open>A comparison to run examples with: the order of the code units.\<close>

definition codeUnitCompare :: localeCompare where
  "codeUnitCompare a b = (if a = b then 0 else if a < b then - 1 else 1)"

text \<open>
  An event library to run examples with: the members 0 to 3 of the enumeration, decoded
  from numbers only. \<open>exampleParse\<close> reads no string as a number.
\<close>

definition exampleSdk :: osEventTypeList where
  "exampleSdk =
     \<lparr>fromJson = (\<lambda>v. case v of
          JNumber n \<Rightarrow> if 0 \<le> n \<and> n \<le> 3 then EnumValue n else NoValue
        | _ \<Rightarrow> NoValue),
      CLICK_EVENT = 0, SCROLL_TOP_EVENT = 1, SCROLL_BOTTOM_EVENT = 2,
      DOUBLE_CLICK_EVENT = 3\<rparr>"

definition exampleParse :: "jsString \<Rightarrow> jsNumber" where
  "exampleParse s = NaN"

text \<open>A devices view over \<open>n\<close> numbered devices of one room.\<close>

definition exampleDevice :: "nat \<Rightarrow> deviceEntry" where
  "exampleDevice i =
     \<lparr>deviceId = str ''d'' @ digits i, deviceName = str ''Lamp '' @ digits i,
      deviceType = None, deviceProtocol = None, supportsSwitch = Some True,
      supportsDimmer = None\<rparr>"

definition devicesState :: "nat \<Rightarrow> appState" where
  "devicesState n =
     buildInitialState\<lparr>listView := VDevices, devices := map exampleDevice [0..<n],
       devicesStatus := LReady\<rparr>"

text \<open>A small home: two scenes, two rooms, one favourite scene.\<close>

definition exampleHome :: appState where
  "exampleHome =
     buildInitialState\<lparr>
       scenes := [\<lparr>sceneId = str ''s1'', sceneName = str ''Evening''\<rparr>,
                  \<lparr>sceneId = str ''s2'', sceneName = str ''Morning''\<rparr>],
       status := SReady,
       rooms := [\<lparr>roomId = str ''r1'', roomName = str ''Kitchen''\<rparr>,
                 \<lparr>roomId = str ''r2'', roomName = str ''Study''\<rparr>],
       roomsStatus := LReady,
       preferences := DEFAULT_PREFERENCES\<lparr>favoritesIds := [(FScene, str ''s2'')]\<rparr>\<rparr>"

section \<open>Verified properties\<close>

lemma countSuccesses_eq:
  "countSuccesses oks c = c + int (length (filter id oks))"
  by (induction oks arbitrary: c) auto

lemma filter_all_length:
  "length (filter P xs) = length xs \<longleftrightarrow> (\<forall>x\<in>set xs. P x)"
proof (induction xs)
  case Nil
  then show ?case by simp
next
  case (Cons x xs)
  have "length (filter P xs) \<noteq> Suc (length xs)"
    using length_filter_le [of P xs] by linarith
  then show ?case using Cons by auto
qed

lemma runAllDevicesOutcome_cases:
  assumes "oks \<noteq> []"
  shows "(runAllDevicesOutcome oks = Success \<longleftrightarrow> (\<forall>ok\<in>set oks. ok))
       \<and> (runAllDevicesOutcome oks = Failure \<longleftrightarrow> (\<forall>ok\<in>set oks. \<not> ok))
       \<and> (runAllDevicesOutcome oks = Partial \<longleftrightarrow> (\<exists>ok\<in>set oks. ok) \<and> (\<exists>ok\<in>set oks. \<not> ok))"
proof -
  have all: "length (filter id oks) = length oks \<longleftrightarrow> (\<forall>ok\<in>set oks. ok)"
    using filter_all_length [of id oks] by simp
  have none: "length (filter id oks) = 0 \<longleftrightarrow> (\<forall>ok\<in>set oks. \<not> ok)"
    by (simp add: filter_empty_conv)
  show ?thesis
    using assms all none
    by (auto simp: runAllDevicesOutcome_def confirmationResultFromCounts_def countSuccesses_eq)
qed

text \<open>
  Claim C7. For a batch of \<open>n \<ge> 1\<close> per-device actions of which \<open>k\<close> succeeded, the
  outcome is success exactly when \<open>k = n\<close>, failure exactly when \<open>k = 0\<close>, and partial in
  every other case. So a batch over a non-empty list of devices is a success exactly
  when every command went through and a failure exactly when none did.
\<close>

theorem C7_batch_classification:
  "(1 \<le> n \<longrightarrow>
      (confirmationResultFromCounts k n = Success \<longleftrightarrow> k = n)
      \<and> (confirmationResultFromCounts k n = Failure \<longleftrightarrow> k = 0)
      \<and> (confirmationResultFromCounts k n = Partial \<longleftrightarrow> k \<noteq> n \<and> k \<noteq> 0))
   \<and> (oks \<noteq> [] \<longrightarrow>
      (runAllDevicesOutcome oks = Success \<longleftrightarrow> (\<forall>ok\<in>set oks. ok))
      \<and> (runAllDevicesOutcome oks = Failure \<longleftrightarrow> (\<forall>ok\<in>set oks. \<not> ok))
      \<and> (runAllDevicesOutcome oks = Partial
           \<longleftrightarrow> (\<exists>ok\<in>set oks. ok) \<and> (\<exists>ok\<in>set oks. \<not> ok)))"
  using runAllDevicesOutcome_cases [of oks]
  by (auto simp: confirmationResultFromCounts_def)

theorem C7_batch_classification_witness:
  "(1::int) \<le> 3
   \<and> confirmationResultFromCounts 3 3 = Success
   \<and> confirmationResultFromCounts 0 3 = Failure
   \<and> confirmationResultFromCounts 2 3 = Partial
   \<and> runAllDevicesOutcome [True, False, True] = Partial
   \<and> runAllDevicesOutcome [True, True] = Success"
  using C7_batch_classification [of 3 3] C7_batch_classification [of 3 0]
    C7_batch_classification [of 3 2 "[True, False, True]"]
    C7_batch_classification [of 3 2 "[True, True]"]
  by simp

text \<open>
  Claim C9, as amended. Every navigation action sets the page index to 0. The selected
  device is cleared by a change of view to any view but device detail and device
  dimming, and by the opening of the room-wide controls; opening a favourite device
  clears the selected room. A change of view keeps the selected room as it was.
\<close>

theorem C9_navigation_resets:
  "(a = NAV_VIEW v \<or> a = NAV_ROOM r \<or> a = NAV_DEVICE d \<or> a = NAV_FAVORITE_DEVICE d
      \<or> a = NAV_ROOM_ALL \<longrightarrow> listPageIndex (reduce state a) = 0)
   \<and> (v \<noteq> VDeviceDetail \<and> v \<noteq> VDeviceDim \<longrightarrow>
        selectedDeviceId (reduce state (NAV_VIEW v)) = None)
   \<and> selectedDeviceId (reduce state NAV_ROOM_ALL) = None
   \<and> selectedRoomId (reduce state (NAV_FAVORITE_DEVICE d)) = None
   \<and> selectedDeviceId (reduce state (NAV_DEVICE d)) = Some d
   \<and> selectedDeviceId (reduce state (NAV_FAVORITE_DEVICE d)) = Some d
   \<and> selectedRoomId (reduce state (NAV_ROOM r)) = Some r
   \<and> selectedRoomId (reduce state (NAV_VIEW v)) = selectedRoomId state"
  by (auto simp: Let_def)

theorem C9_navigation_resets_witness:
  "listPageIndex (reduce (buildInitialState\<lparr>listPageIndex := 2\<rparr>) (NAV_VIEW VScenes)) = 0
   \<and> selectedDeviceId
        (reduce (buildInitialState\<lparr>selectedDeviceId := Some (str ''d1'')\<rparr>) (NAV_VIEW VScenes))
      = None"
  using C9_navigation_resets [of "NAV_VIEW VScenes" VScenes _ _ "buildInitialState\<lparr>listPageIndex := 2\<rparr>"]
    C9_navigation_resets [of _ VScenes _ _ "buildInitialState\<lparr>selectedDeviceId := Some (str ''d1'')\<rparr>"]
  by simp

theorem C9_counterexample:
  "listView (foldl reduce buildInitialState
       [NAV_VIEW VRooms, NAV_ROOM (str ''r1''), NAV_VIEW VRooms, NAV_VIEW VMain]) = VMain
   \<and> selectedRoomId (foldl reduce buildInitialState
       [NAV_VIEW VRooms, NAV_ROOM (str ''r1''), NAV_VIEW VRooms, NAV_VIEW VMain]) = Some (str ''r1'')
   \<and> listView (reduce (buildInitialState\<lparr>selectedDeviceId := Some (str ''d1'')\<rparr>)
       (NAV_ROOM (str ''r1''))) = VDevices
   \<and> selectedDeviceId (reduce (buildInitialState\<lparr>selectedDeviceId := Some (str ''d1'')\<rparr>)
       (NAV_ROOM (str ''r1''))) = Some (str ''d1'')"
  by (simp add: buildInitialState_def Let_def)

text \<open>
  Claim C8, as amended. With an empty collection the rooms view shows one informational
  slot chosen by the loading status and no back entry; the scenes view shows nothing
  while loading and one slot otherwise; the devices view and the favourites view show
  the back entry at slot 0 followed by one informational slot; the page count is 1 in
  each of the four views.
\<close>

theorem C8_empty_collections:
  "(getOrderedScenes lc state = [] \<longrightarrow>
      sceneNamesForListView lc state
        = (if status state = SLoading then [] else [str ''No scenes''])
      \<and> (listView state = VScenes \<longrightarrow> getTotalPages lc state = 1))
   \<and> (getOrderedRooms lc state = [] \<longrightarrow>
      roomNamesForListView lc state
        = [if roomsStatus state = LLoading then LABEL_LOADING
           else if roomsStatus state = LError then str ''Failed to load rooms''
           else str ''No rooms'']
      \<and> (listView state = VRooms \<longrightarrow> getTotalPages lc state = 1))
   \<and> (getOrderedDevices lc state = [] \<longrightarrow>
      deviceNamesForListView lc state
        = [LABEL_BACK,
           if devicesStatus state = LLoading then LABEL_LOADING
           else if devicesStatus state = LError then str ''Failed to load devices''
           else str ''No devices'']
      \<and> (listView state = VDevices \<longrightarrow> getTotalPages lc state = 1))
   \<and> (getOrderedFavorites lc state = [] \<longrightarrow>
      favoriteNamesForListView lc state = [LABEL_BACK, str ''No favorites'']
      \<and> (listView state = VFavorites \<longrightarrow> getTotalPages lc state = 1))"
  by (simp add: sceneNamesForListView_def roomNamesForListView_def
      deviceNamesForListView_def favoriteNamesForListView_def getTotalPages_def)

theorem C8_empty_collections_witness:
  "getOrderedFavorites codeUnitCompare (buildInitialState\<lparr>listView := VFavorites\<rparr>) = []
   \<and> favoriteNamesForListView codeUnitCompare (buildInitialState\<lparr>listView := VFavorites\<rparr>)
       = [LABEL_BACK, str ''No favorites'']
   \<and> getTotalPages codeUnitCompare (buildInitialState\<lparr>listView := VFavorites\<rparr>) = 1
   \<and> getOrderedRooms codeUnitCompare (buildInitialState\<lparr>listView := VRooms\<rparr>) = []
   \<and> roomNamesForListView codeUnitCompare (buildInitialState\<lparr>listView := VRooms\<rparr>)
       = [str ''No rooms'']"
proof -
  have f: "getOrderedFavorites codeUnitCompare (buildInitialState\<lparr>listView := VFavorites\<rparr>) = []"
    by (simp add: getOrderedFavorites_def buildInitialState_def DEFAULT_PREFERENCES_def)
  have r: "getOrderedRooms codeUnitCompare (buildInitialState\<lparr>listView := VRooms\<rparr>) = []"
    by (simp add: getOrderedRooms_def applyOrder_def buildInitialState_def
        DEFAULT_PREFERENCES_def)
  show ?thesis
    using f r
      C8_empty_collections [of codeUnitCompare "buildInitialState\<lparr>listView := VFavorites\<rparr>"]
      C8_empty_collections [of codeUnitCompare "buildInitialState\<lparr>listView := VRooms\<rparr>"]
    by (simp add: buildInitialState_def)
qed

theorem C8_counterexample:
  "listItemNamesForState codeUnitCompare (buildInitialState\<lparr>listView := VDevices\<rparr>)
     = [LABEL_BACK, str ''No devices'']
   \<and> listItemNamesForState codeUnitCompare (buildInitialState\<lparr>listView := VScenes\<rparr>) = []"
  by (simp add: listItemNamesForState_def deviceNamesForListView_def
      sceneNamesForListView_def getOrderedDevices_def getOrderedScenes_def applyOrder_def
      buildInitialState_def DEFAULT_PREFERENCES_def)

text \<open>
  Claim C6, as amended. The mapper gives no action for an absent event, for an event
  with neither a list event nor a system event of type 3, for a list event whose type
  the decoder throws on, and for a list event whose type is scroll-top or scroll-bottom.
  Every other list event gives a tap, also with an absent or unrecognised type: a double
  tap when the type is 3 or the double click, a single tap otherwise. A system event of
  type 3 gives a double tap at the focused position.
\<close>

theorem C6_input_mapper:
  "mapEvenHubEvent sdk parse None st = None
   \<and> (sysEvent ev = Some se \<and> isRawThree parse (se_eventType se) \<longrightarrow>
        mapEvenHubEvent sdk parse (Some ev) st
          = Some (TAP (case st of Some s \<Rightarrow> focusedListIndex s | None \<Rightarrow> 0) (Some 2)))
   \<and> ((case sysEvent ev of Some se \<Rightarrow> \<not> isRawThree parse (se_eventType se) | None \<Rightarrow> True) \<longrightarrow>
        (listEvent ev = None \<longrightarrow> mapEvenHubEvent sdk parse (Some ev) st = None)
        \<and> (\<forall>le idx. listEvent ev = Some le
               \<and> idx = (case currentSelectItemIndex le of Some i \<Rightarrow> i | None \<Rightarrow> 0) \<longrightarrow>
             (le_eventType le = JUndefined \<or> le_eventType le = JNull \<longrightarrow>
                mapEvenHubEvent sdk parse (Some ev) st = Some (TAP idx (Some 1)))
             \<and> (le_eventType le \<noteq> JUndefined \<and> le_eventType le \<noteq> JNull \<longrightarrow>
                (fromJson sdk (le_eventType le) = Thrown \<longrightarrow>
                   mapEvenHubEvent sdk parse (Some ev) st = None)
                \<and> (\<forall>k. (fromJson sdk (le_eventType le) = EnumValue k
                          \<or> fromJson sdk (le_eventType le) = NoValue
                            \<and> toNumber parse (le_eventType le) = Num k) \<longrightarrow>
                     mapEvenHubEvent sdk parse (Some ev) st
                       = (if isRawThree parse (le_eventType le) \<or> k = DOUBLE_CLICK_EVENT sdk
                          then Some (TAP idx (Some 2))
                          else if k = CLICK_EVENT sdk then Some (TAP idx (Some 1))
                          else if k \<noteq> SCROLL_TOP_EVENT sdk \<and> k \<noteq> SCROLL_BOTTOM_EVENT sdk
                          then Some (TAP idx (Some 1))
                          else None))
                \<and> (fromJson sdk (le_eventType le) = NoValue
                      \<and> toNumber parse (le_eventType le) = NaN \<longrightarrow>
                     mapEvenHubEvent sdk parse (Some ev) st = Some (TAP idx (Some 1))))))"
  by (auto simp: mapEvenHubEvent_def Let_def isRawThree_def split: option.splits decoded.splits)

theorem C6_input_mapper_witness:
  "mapEvenHubEvent exampleSdk exampleParse
     (Some \<lparr>sysEvent = None,
            listEvent = Some \<lparr>le_eventType = JNumber 1, currentSelectItemIndex = Some 4\<rparr>\<rparr>) None
     = None
   \<and> mapEvenHubEvent exampleSdk exampleParse
     (Some \<lparr>sysEvent = None,
            listEvent = Some \<lparr>le_eventType = JNumber 0, currentSelectItemIndex = Some 4\<rparr>\<rparr>) None
     = Some (TAP 4 (Some 1))"
  using C6_input_mapper [of exampleSdk exampleParse None
      "\<lparr>sysEvent = None,
        listEvent = Some \<lparr>le_eventType = JNumber 1, currentSelectItemIndex = Some 4\<rparr>\<rparr>"]
    C6_input_mapper [of exampleSdk exampleParse None
      "\<lparr>sysEvent = None,
        listEvent = Some \<lparr>le_eventType = JNumber 0, currentSelectItemIndex = Some 4\<rparr>\<rparr>"]
  by (simp add: exampleSdk_def isRawThree_def)

theorem C6_counterexample:
  "fromJson exampleSdk (JNumber 99) = NoValue
   \<and> mapEvenHubEvent exampleSdk exampleParse
     (Some \<lparr>sysEvent = None,
            listEvent = Some \<lparr>le_eventType = JNumber 99, currentSelectItemIndex = Some 4\<rparr>\<rparr>) None
     = Some (TAP 4 (Some 1))"
  by (simp add: mapEvenHubEvent_def exampleSdk_def isRawThree_def)

subsection \<open>Sorting and the ordered map\<close>

lemma mset_insertBy: "mset (insertBy c x ys) = add_mset x (mset ys)"
  by (induction ys) auto

lemma mset_jsSort: "mset (jsSort c xs) = mset xs"
  by (induction xs) (auto simp: mset_insertBy)

lemma set_jsSort: "set (jsSort c xs) = set xs"
  using mset_jsSort [of c xs] by (metis set_mset_mset)

lemma length_jsSort: "length (jsSort c xs) = length xs"
  using mset_jsSort [of c xs] by (metis size_mset)

lemma sorted_insertBy:
  assumes tot: "\<And>a b. c a b \<le> 0 \<or> c b a \<le> 0"
    and tr: "\<And>a b d. c a b \<le> 0 \<Longrightarrow> c b d \<le> 0 \<Longrightarrow> c a d \<le> 0"
    and srt: "sorted_wrt (\<lambda>a b. c a b \<le> 0) ys"
  shows "sorted_wrt (\<lambda>a b. c a b \<le> (0::int)) (insertBy c x ys)"
  using srt
proof (induction ys)
  case Nil
  then show ?case by simp
next
  case (Cons y ys)
  show ?case
  proof (cases "c x y \<le> 0")
    case True
    have "\<forall>z\<in>set ys. c x z \<le> 0"
      using Cons.prems True tr by auto
    with True Cons.prems show ?thesis by simp
  next
    case False
    then have yx: "c y x \<le> 0" using tot [of x y] by simp
    have "sorted_wrt (\<lambda>a b. c a b \<le> 0) (insertBy c x ys)"
      using Cons by simp
    moreover have "\<forall>z\<in>set (insertBy c x ys). c y z \<le> 0"
    proof
      fix z assume "z \<in> set (insertBy c x ys)"
      then have "z \<in># mset (insertBy c x ys)" by simp
      then have "z = x \<or> z \<in> set ys" by (simp add: mset_insertBy)
      then show "c y z \<le> 0" using yx Cons.prems by auto
    qed
    ultimately show ?thesis using False by simp
  qed
qed

lemma sorted_jsSort:
  assumes tot: "\<And>a b. c a b \<le> 0 \<or> c b a \<le> 0"
    and tr: "\<And>a b d. c a b \<le> 0 \<Longrightarrow> c b d \<le> 0 \<Longrightarrow> c a d \<le> 0"
  shows "sorted_wrt (\<lambda>a b. c a b \<le> (0::int)) (jsSort c xs)"
proof (induction xs)
  case Nil
  then show ?case by simp
next
  case (Cons x xs)
  then show ?case using sorted_insertBy [of c "jsSort c xs" x] tot tr by simp
qed

lemma mapSet_fresh: "k \<notin> fst ` set m \<Longrightarrow> mapSet m k v = m @ [(k, v)]"
  by (induction m) auto

lemma newMap_distinct:
  "distinct (map fst (m @ entries)) \<Longrightarrow> newMap m entries = m @ entries"
proof (induction entries arbitrary: m)
  case Nil
  then show ?case by simp
next
  case (Cons e entries)
  obtain k v where e: "e = (k, v)" by (cases e)
  have fresh: "k \<notin> fst ` set m" using Cons.prems e by auto
  have "distinct (map fst ((m @ [(k, v)]) @ entries))" using Cons.prems e by simp
  then have "newMap (m @ [(k, v)]) entries = (m @ [(k, v)]) @ entries" by (rule Cons.IH)
  then show ?case using e fresh by (simp add: mapSet_fresh)
qed

lemma mapGet_None: "mapGet m k = None \<Longrightarrow> k \<notin> fst ` set m"
  by (induction m) (force split: if_splits)+

lemma mapGet_Some_mem: "mapGet m k = Some v \<Longrightarrow> (k, v) \<in> set m"
  by (induction m) (auto split: if_splits)

lemma mapDelete_mset:
  "distinct (map fst m) \<Longrightarrow> mapGet m k = Some v \<Longrightarrow>
     mset (map snd m) = add_mset v (mset (map snd (mapDelete m k)))"
proof (induction m)
  case Nil
  then show ?case by simp
next
  case (Cons e m)
  show ?case
  proof (cases "fst e = k")
    case True
    then have "k \<notin> fst ` set m" using Cons.prems by auto
    then have "filter (\<lambda>e. fst e \<noteq> k) m = m" by (auto simp: filter_id_conv)
    with True Cons.prems show ?thesis by (cases e) (simp add: mapDelete_def)
  next
    case False
    with Cons show ?thesis by (cases e) (simp add: mapDelete_def)
  qed
qed

lemma distinct_mapDelete: "distinct (map fst m) \<Longrightarrow> distinct (map fst (mapDelete m k))"
  by (simp add: mapDelete_def distinct_map_filter)

lemma customWalk_mset:
  "distinct (map fst byId) \<Longrightarrow>
     mset (fst (customWalk ids byId ordered)) + mset (map snd (snd (customWalk ids byId ordered)))
       = mset ordered + mset (map snd byId)"
proof (induction ids arbitrary: byId ordered)
  case Nil
  then show ?case by simp
next
  case (Cons i ids)
  show ?case
  proof (cases "mapGet byId i")
    case None
    then show ?thesis using Cons by simp
  next
    case (Some item)
    have "mset (fst (customWalk ids (mapDelete byId i) (ordered @ [item])))
            + mset (map snd (snd (customWalk ids (mapDelete byId i) (ordered @ [item]))))
          = mset (ordered @ [item]) + mset (map snd (mapDelete byId i))"
      using Cons.IH [OF distinct_mapDelete [OF Cons.prems]] .
    then show ?thesis
      using Some mapDelete_mset [OF Cons.prems Some] by simp
  qed
qed

lemma customWalk_rest:
  "snd (customWalk ids byId ordered) = filter (\<lambda>e. fst e \<notin> set ids) byId"
proof (induction ids arbitrary: byId ordered)
  case Nil
  then show ?case by simp
next
  case (Cons i ids)
  show ?case
  proof (cases "mapGet byId i")
    case None
    then have "i \<notin> fst ` set byId" by (rule mapGet_None)
    then have "filter (\<lambda>e. fst e \<notin> set (i # ids)) byId = filter (\<lambda>e. fst e \<notin> set ids) byId"
      by (intro filter_cong) auto
    then show ?thesis using None Cons by simp
  next
    case (Some item)
    have "filter (\<lambda>e. fst e \<notin> set ids) (mapDelete byId i)
            = filter (\<lambda>e. fst e \<notin> set (i # ids)) byId"
      by (simp add: mapDelete_def conj_commute)
    then show ?thesis using Some Cons by simp
  qed
qed

lemma customWalk_found:
  "\<forall>e\<in>set byId. fst e = key (snd e) \<Longrightarrow>
     \<forall>x\<in>set (fst (customWalk ids byId ordered)). x \<in> set ordered \<or> key x \<in> set ids"
proof (induction ids arbitrary: byId ordered)
  case Nil
  then show ?case by simp
next
  case (Cons i ids)
  show ?case
  proof (cases "mapGet byId i")
    case None
    then show ?thesis using Cons by auto
  next
    case (Some item)
    have key: "key item = i" using mapGet_Some_mem [OF Some] Cons.prems by force
    have "\<forall>e\<in>set (mapDelete byId i). fst e = key (snd e)"
      using Cons.prems by (simp add: mapDelete_def)
    from Cons.IH [OF this, of "ordered @ [item]"] show ?thesis
      using Some key by auto
  qed
qed

text \<open>
  Claim C3. Under the custom preference the ordered output is a permutation of the
  collection, whatever the explicit id list holds: with unique identifiers it carries
  exactly the identifiers of the collection, each once. The entities the list names come
  first; those it does not name follow, sorted by name under the comparison.
\<close>

theorem C3_custom_order_permutation:
  assumes ids: "distinct (map getKey items)"
    and tot: "\<forall>a b. lc a b \<le> 0 \<or> lc b a \<le> 0"
    and tr: "\<forall>a b c. lc a b \<le> 0 \<longrightarrow> lc b c \<le> 0 \<longrightarrow> lc a c \<le> 0"
  shows "mset (applyOrder lc items getKey getName Custom customIds) = mset items
       \<and> distinct (map getKey (applyOrder lc items getKey getName Custom customIds))
       \<and> set (map getKey (applyOrder lc items getKey getName Custom customIds))
           = set (map getKey items)
       \<and> applyOrder lc items getKey getName Custom customIds
           = filter (\<lambda>x. getKey x \<in> set customIds)
               (applyOrder lc items getKey getName Custom customIds)
             @ filter (\<lambda>x. getKey x \<notin> set customIds)
               (applyOrder lc items getKey getName Custom customIds)
       \<and> sorted_wrt (\<lambda>a b. lc (getName a) (getName b) \<le> 0)
           (filter (\<lambda>x. getKey x \<notin> set customIds)
              (applyOrder lc items getKey getName Custom customIds))"
proof -
  define byId where "byId = map (\<lambda>item. (getKey item, item)) items"
  define w where "w = customWalk customIds byId []"
  define c where "c = (\<lambda>a b. lc (getName a) (getName b))"
  define rest where "rest = jsSort c (mapValues (snd w))"
  define out where "out = applyOrder lc items getKey getName Custom customIds"
  have dk: "distinct (map fst byId)" using ids by (simp add: byId_def comp_def)
  have nm: "newMap [] (map (\<lambda>item. (getKey item, item)) items) = byId"
    using newMap_distinct [of "[]" byId] dk by (simp add: byId_def)
  have out: "out = fst w @ rest"
    by (simp add: out_def applyOrder_def nm w_def rest_def c_def Let_def)
  have perm: "mset out = mset items"
  proof -
    have "mset (fst w) + mset (map snd (snd w)) = mset (map snd byId)"
      using customWalk_mset [OF dk, of customIds "[]"] by (simp add: w_def)
    moreover have "map snd byId = items" by (simp add: byId_def comp_def)
    ultimately show ?thesis by (simp add: out rest_def mset_jsSort mapValues_def)
  qed
  have keys: "mset (map getKey out) = mset (map getKey items)"
    using perm by (metis mset_map)
  have dist: "distinct (map getKey out)"
    using keys ids by (metis mset_eq_imp_distinct_iff)
  have sets: "set (map getKey out) = set (map getKey items)"
    using keys by (metis set_mset_mset)
  have found: "\<forall>x\<in>set (fst w). getKey x \<in> set customIds"
    using customWalk_found [of byId getKey customIds "[]"] by (auto simp: byId_def w_def)
  have unnamed: "\<forall>x\<in>set rest. getKey x \<notin> set customIds"
  proof
    fix x assume "x \<in> set rest"
    then have "x \<in> snd ` set (snd w)" by (simp add: rest_def set_jsSort mapValues_def)
    then obtain e where e: "e \<in> set (snd w)" "x = snd e" by auto
    then have "e \<in> set byId" "fst e \<notin> set customIds"
      by (auto simp: w_def customWalk_rest)
    then show "getKey x \<notin> set customIds" using e by (auto simp: byId_def)
  qed
  have f1: "filter (\<lambda>x. getKey x \<in> set customIds) out = fst w"
    using found unnamed by (simp add: out filter_id_conv filter_empty_conv)
  have f2: "filter (\<lambda>x. getKey x \<notin> set customIds) out = rest"
    using found unnamed by (simp add: out filter_id_conv filter_empty_conv)
  have srt: "sorted_wrt (\<lambda>a b. c a b \<le> 0) rest"
    unfolding rest_def
    by (rule sorted_jsSort) (use tot tr in \<open>auto simp: c_def\<close>)
  show ?thesis
    using perm dist sets f1 f2 srt out unfolding out_def [symmetric] c_def by simp
qed


lemma codeUnitCompare_total: "codeUnitCompare a b \<le> 0 \<or> codeUnitCompare b a \<le> 0"
  by (auto simp: codeUnitCompare_def)

lemma codeUnitCompare_trans:
  "codeUnitCompare a b \<le> 0 \<Longrightarrow> codeUnitCompare b c \<le> 0 \<Longrightarrow> codeUnitCompare a c \<le> 0"
  by (auto simp: codeUnitCompare_def split: if_splits)

theorem C3_custom_order_permutation_witness:
  "distinct (map sceneId
      [\<lparr>sceneId = str ''b'', sceneName = str ''Bravo''\<rparr>,
       \<lparr>sceneId = str ''a'', sceneName = str ''Alpha''\<rparr>,
       \<lparr>sceneId = str ''c'', sceneName = str ''Charlie''\<rparr>])
   \<and> mset (applyOrder codeUnitCompare
        [\<lparr>sceneId = str ''b'', sceneName = str ''Bravo''\<rparr>,
         \<lparr>sceneId = str ''a'', sceneName = str ''Alpha''\<rparr>,
         \<lparr>sceneId = str ''c'', sceneName = str ''Charlie''\<rparr>]
        sceneId sceneName Custom [str ''c'', str ''x'', str ''c''])
     = mset
        [\<lparr>sceneId = str ''b'', sceneName = str ''Bravo''\<rparr>,
         \<lparr>sceneId = str ''a'', sceneName = str ''Alpha''\<rparr>,
         \<lparr>sceneId = str ''c'', sceneName = str ''Charlie''\<rparr>]"
proof -
  have d: "distinct (map sceneId
      [\<lparr>sceneId = str ''b'', sceneName = str ''Bravo''\<rparr>,
       \<lparr>sceneId = str ''a'', sceneName = str ''Alpha''\<rparr>,
       \<lparr>sceneId = str ''c'', sceneName = str ''Charlie''\<rparr>])"
    by (simp add: str_def)
  have t: "\<forall>a b. codeUnitCompare a b \<le> 0 \<or> codeUnitCompare b a \<le> 0"
    using codeUnitCompare_total by blast
  have r: "\<forall>a b c. codeUnitCompare a b \<le> 0 \<longrightarrow> codeUnitCompare b c \<le> 0
             \<longrightarrow> codeUnitCompare a c \<le> 0"
    using codeUnitCompare_trans by blast
  show ?thesis
    using d C3_custom_order_permutation [OF d t r, of sceneName "[str ''c'', str ''x'', str ''c'']"]
    by blast
qed

lemma applyOrder_custom_example:
  "applyOrder codeUnitCompare
        [\<lparr>sceneId = str ''b'', sceneName = str ''Bravo''\<rparr>,
         \<lparr>sceneId = str ''a'', sceneName = str ''Alpha''\<rparr>,
         \<lparr>sceneId = str ''c'', sceneName = str ''Charlie''\<rparr>]
        sceneId sceneName Custom [str ''c'', str ''x'', str ''c'']
   = [\<lparr>sceneId = str ''c'', sceneName = str ''Charlie''\<rparr>,
      \<lparr>sceneId = str ''a'', sceneName = str ''Alpha''\<rparr>,
      \<lparr>sceneId = str ''b'', sceneName = str ''Bravo''\<rparr>]"
  by (simp add: applyOrder_def str_def mapDelete_def mapValues_def codeUnitCompare_def)

subsection \<open>Label lengths\<close>

lemma set_js_slice: "set (js_slice xs a b) \<subseteq> set xs"
  unfolding js_slice_def Let_def
  by (meson set_take_subset set_drop_subset subset_trans)

lemma js_slice_prefix: "0 \<le> k \<Longrightarrow> js_slice xs 0 k = take (nat k) xs"
  by (auto simp: js_slice_def Let_def min_def)

lemma length_truncateName: "length (truncateName n fallback) \<le> 64"
  by (simp add: truncateName_def Let_def js_slice_prefix LIST_ITEM_NAME_MAX_LEN_def ellipsis_def)

lemma length_getDisplayName: "length (getDisplayName state kind ident fallback) \<le> 64"
  by (simp add: getDisplayName_def Let_def js_slice_prefix LIST_ITEM_NAME_MAX_LEN_def
      ellipsis_def)

lemma truncateName_long:
  "length n > 64 \<Longrightarrow> truncateName n fallback = take 63 n @ ellipsis"
  by (auto simp: truncateName_def Let_def js_slice_prefix LIST_ITEM_NAME_MAX_LEN_def orElse_def)

lemma truncateName_short:
  "n \<noteq> [] \<Longrightarrow> length n \<le> 64 \<Longrightarrow> truncateName n fallback = n"
  by (simp add: truncateName_def orElse_def LIST_ITEM_NAME_MAX_LEN_def)

lemma fixed_labels_short:
  "length LABEL_BACK \<le> 64" "length LABEL_PREVIOUS \<le> 64" "length LABEL_NEXT \<le> 64"
  "length LABEL_ALL \<le> 64" "length LABEL_LOADING \<le> 64"
  "length (str ''No scenes'') \<le> 64" "length (str ''No rooms'') \<le> 64"
  "length (str ''Failed to load rooms'') \<le> 64" "length (str ''No devices'') \<le> 64"
  "length (str ''Failed to load devices'') \<le> 64" "length (str ''No favorites'') \<le> 64"
  "length (str ''On'') \<le> 64" "length (str ''Off'') \<le> 64" "length (str ''Dim'') \<le> 64"
  by (simp_all add: LABEL_BACK_def LABEL_PREVIOUS_def LABEL_NEXT_def LABEL_ALL_def
      LABEL_LOADING_def ellipsis_def str_def)

lemma emptySlots_short: "l \<in> set (emptySlots k) \<Longrightarrow> length l \<le> 64"
  by (auto simp: emptySlots_def)

lemma dim_level_lengths:
  "map (\<lambda>x. length (numberToString x)) DIM_LEVELS = [1, 2, 2, 2, 2, 2, 2, 2, 2, 2, 3]"
  by (simp add: DIM_LEVELS_def numberToString_def digits.simps)

lemma dim_level_short:
  assumes "x \<in> set DIM_LEVELS"
  shows "length (numberToString x) \<le> 64"
proof -
  have "length (numberToString x) \<in> set (map (\<lambda>x. length (numberToString x)) DIM_LEVELS)"
    using assms by (simp add: image_iff) blast
  then show ?thesis unfolding dim_level_lengths by auto
qed

lemma sceneNames_short:
  "l \<in> set (sceneNamesForListView lc state) \<Longrightarrow> length l \<le> 64"
  unfolding sceneNamesForListView_def Let_def
  by (auto simp: fixed_labels_short length_truncateName dest: emptySlots_short
      split: if_splits)

lemma roomNames_short:
  "l \<in> set (roomNamesForListView lc state) \<Longrightarrow> length l \<le> 64"
  unfolding roomNamesForListView_def Let_def
  by (auto simp: fixed_labels_short length_truncateName dest: emptySlots_short
      split: if_splits)

lemma favoriteNames_short:
  "l \<in> set (favoriteNamesForListView lc state) \<Longrightarrow> length l \<le> 64"
  unfolding favoriteNamesForListView_def Let_def
  by (auto simp: fixed_labels_short length_truncateName dest: emptySlots_short
      split: if_splits)

lemma deviceNames_short:
  "l \<in> set (deviceNamesForListView lc state) \<Longrightarrow> length l \<le> 64"
  unfolding deviceNamesForListView_def Let_def deviceLabel_def
  by (auto simp: fixed_labels_short length_truncateName dest: emptySlots_short
      split: if_splits)

lemma dimLevelNames_short:
  "l \<in> set (dimLevelItemNames state) \<Longrightarrow> length l \<le> 64"
  unfolding dimLevelItemNames_def Let_def
  using set_js_slice [of DIM_LEVELS]
  by (auto simp: fixed_labels_short dest: emptySlots_short dim_level_short
      split: if_splits)

lemma detailNames_short:
  "l \<in> set (deviceDetailItemNames state) \<Longrightarrow> length l \<le> 64"
  "l \<in> set (roomAllDetailItemNames state) \<Longrightarrow> length l \<le> 64"
  by (auto simp: deviceDetailItemNames_def roomAllDetailItemNames_def Let_def
      fixed_labels_short split: if_splits)

lemma mainMenu_short: "length (MAIN_MENU_LABEL x) \<le> 64"
  by (cases x) (simp_all add: str_def)


text \<open>
  Claim C10. Every label of the composed list has at most 64 code units, in every state
  and view. A display name longer than 64 is cut to its first 63 code units followed by
  the ellipsis when it is resolved, and the composer places a non-empty display name in
  its slot as it is.
\<close>

theorem C10_label_length:
  "(\<forall>label\<in>set (listItemNamesForState lc state). int (length label) \<le> LIST_ITEM_NAME_MAX_LEN)
   \<and> getDisplayName state kind ident fallback
       = (let name = (case renames (preferences state) ident of Some r \<Rightarrow> r | None \<Rightarrow> fallback);
              n = orElse (trim (orElse name fallback)) fallback
          in if length n \<le> 64 then n else take 63 n @ ellipsis)
   \<and> (getDisplayName state kind ident fallback \<noteq> [] \<longrightarrow>
        truncateName (getDisplayName state kind ident fallback) fb
          = getDisplayName state kind ident fallback)
   \<and> (length n > 64 \<longrightarrow> truncateName n fb = take 63 n @ ellipsis)"
proof -
  have a: "\<forall>label\<in>set (listItemNamesForState lc state). int (length label) \<le> LIST_ITEM_NAME_MAX_LEN"
    unfolding listItemNamesForState_def LIST_ITEM_NAME_MAX_LEN_def
    using sceneNames_short [of _ lc state] roomNames_short [of _ lc state]
      favoriteNames_short [of _ lc state] deviceNames_short [of _ lc state]
      dimLevelNames_short [of _ state] detailNames_short [of _ state]
    by (auto simp: mainMenu_short)
  have b: "getDisplayName state kind ident fallback
       = (let name = (case renames (preferences state) ident of Some r \<Rightarrow> r | None \<Rightarrow> fallback);
              n = orElse (trim (orElse name fallback)) fallback
          in if length n \<le> 64 then n else take 63 n @ ellipsis)"
    by (simp add: getDisplayName_def Let_def js_slice_prefix LIST_ITEM_NAME_MAX_LEN_def)
  have c: "getDisplayName state kind ident fallback \<noteq> [] \<longrightarrow>
        truncateName (getDisplayName state kind ident fallback) fb
          = getDisplayName state kind ident fallback"
    using truncateName_short [OF _ length_getDisplayName] by blast
  show ?thesis using a b c truncateName_long by blast
qed

subsection \<open>The devices view, page by page\<close>

lemma js_slice_nonneg:
  "0 \<le> a \<Longrightarrow> a \<le> b \<Longrightarrow> js_slice xs a b = take (nat (b - a)) (drop (nat a) xs)"
  by (auto simp: js_slice_def Let_def min_def)

lemma devices_single_page:
  assumes "getOrderedDevices lc st = devs" "devs \<noteq> []" "length devs \<le> 16"
    "listPageIndex st = 0"
  shows "deviceNamesForListView lc st = LABEL_BACK # LABEL_ALL # map (deviceLabel st) devs"
proof -
  have n: "int (length devs) \<noteq> 0" "1 + int (length devs) \<le> 17" using assms by auto
  show ?thesis
    unfolding deviceNamesForListView_def Let_def assms(1) assms(4)
    using n by (simp add: DEVICES_PER_PAGE_def SCENES_PER_PAGE_def LIST_MAX_ITEMS_def js_slice_def)
qed

lemma lamp_state_labels:
  "listItemNamesForState codeUnitCompare
     (buildInitialState\<lparr>listView := VDevices,
        devices := [\<lparr>deviceId = str ''d1'', deviceName = str ''  Lamp '',
          deviceType = None, deviceProtocol = None, supportsSwitch = Some True,
          supportsDimmer = None\<rparr>]\<rparr>)
   = [LABEL_BACK, LABEL_ALL, str ''Lamp'']"
proof -
  define d where "d = \<lparr>deviceId = str ''d1'', deviceName = str ''  Lamp '',
          deviceType = None, deviceProtocol = None, supportsSwitch = Some True,
          supportsDimmer = None\<rparr>"
  define st where "st = buildInitialState\<lparr>listView := VDevices, devices := [d]\<rparr>"
  have o: "getOrderedDevices codeUnitCompare st = [d]"
    by (simp add: st_def getOrderedDevices_def applyOrder_def buildInitialState_def
        DEFAULT_PREFERENCES_def)
  have l: "deviceLabel st d = str ''Lamp''"
    by (simp add: st_def d_def deviceLabel_def truncateName_def getDisplayName_def
        buildInitialState_def DEFAULT_PREFERENCES_def orElse_def trim_def str_def
        isWhiteSpace_def LIST_ITEM_NAME_MAX_LEN_def)
  have v: "listView st = VDevices" "listPageIndex st = 0"
    by (simp_all add: st_def buildInitialState_def)
  have "deviceNamesForListView codeUnitCompare st = [LABEL_BACK, LABEL_ALL, str ''Lamp'']"
    using devices_single_page [OF o _ _ v(2)] l by simp
  then show ?thesis
    unfolding st_def [symmetric] d_def [symmetric]
    by (simp add: listItemNamesForState_def v)
qed

theorem C10_label_length_witness:
  "listItemNamesForState codeUnitCompare
     (buildInitialState\<lparr>listView := VDevices,
        devices := [\<lparr>deviceId = str ''d1'', deviceName = str ''  Lamp '',
          deviceType = None, deviceProtocol = None, supportsSwitch = Some True,
          supportsDimmer = None\<rparr>]\<rparr>)
   = [LABEL_BACK, LABEL_ALL, str ''Lamp'']
   \<and> int (length (str ''Lamp'')) \<le> LIST_ITEM_NAME_MAX_LEN
   \<and> length (replicate 65 (97::nat)) > 64
   \<and> truncateName (replicate 65 97) (str ''Device'') = take 63 (replicate 65 97) @ ellipsis"
  using lamp_state_labels
    C10_label_length [where lc = codeUnitCompare and state = "buildInitialState\<lparr>listView := VDevices,
        devices := [\<lparr>deviceId = str ''d1'', deviceName = str ''  Lamp '',
          deviceType = None, deviceProtocol = None, supportsSwitch = Some True,
          supportsDimmer = None\<rparr>]\<rparr>" and n = "replicate 65 97" and fb = "str ''Device''"]
  by simp

lemma length_applyOrder_sorted:
  "preference \<noteq> Custom \<Longrightarrow>
     length (applyOrder lc items getKey getName preference customIds) = length items"
  by (cases preference) (simp_all add: applyOrder_def length_jsSort)

lemma getOrderedDevices_page [simp]:
  "getOrderedDevices lc (st\<lparr>listPageIndex := p\<rparr>) = getOrderedDevices lc st"
  by (simp add: getOrderedDevices_def)

lemma deviceLabel_page [simp]:
  "deviceLabel (st\<lparr>listPageIndex := p\<rparr>) = deviceLabel st"
  by (rule ext) (simp add: deviceLabel_def getDisplayName_def)

lemma devices_25_first_page:
  assumes "length (getOrderedDevices lc st) = 25" "listPageIndex st = 0"
  shows "deviceNamesForListView lc st
     = LABEL_BACK # LABEL_ALL # map (deviceLabel st) (take 15 (getOrderedDevices lc st))
       @ [[], LABEL_NEXT]"
  unfolding deviceNamesForListView_def Let_def assms
  by (simp add: assms DEVICES_PER_PAGE_def SCENES_PER_PAGE_def LIST_MAX_ITEMS_def
      ceilDiv_def js_slice_nonneg emptySlots_def)

lemma devices_25_second_page:
  assumes "length (getOrderedDevices lc st) = 25" "listPageIndex st = 1"
  shows "deviceNamesForListView lc st
     = LABEL_PREVIOUS # map (deviceLabel st) (drop 15 (getOrderedDevices lc st))"
  unfolding deviceNamesForListView_def Let_def assms
  by (simp add: assms DEVICES_PER_PAGE_def SCENES_PER_PAGE_def LIST_MAX_ITEMS_def
      ceilDiv_def js_slice_nonneg emptySlots_def)

text \<open>
  Claim C1, as amended. In the devices view over 25 ordered devices (18 content entries
  a page, of the 20 the list can hold), page 0 begins with Back, All and the first 15
  devices and ends with Next; page 1 shows Previous and the devices 15 to 24, 11 entries,
  with no Next; there are two pages.
\<close>

theorem C1_devices_25:
  assumes "listView st = VDevices" and "length (getOrderedDevices lc st) = 25"
  shows "take 17 (listItemNamesForState lc (st\<lparr>listPageIndex := 0\<rparr>))
       = LABEL_BACK # LABEL_ALL # map (deviceLabel st) (take 15 (getOrderedDevices lc st))
     \<and> last (listItemNamesForState lc (st\<lparr>listPageIndex := 0\<rparr>)) = LABEL_NEXT
     \<and> listItemNamesForState lc (st\<lparr>listPageIndex := 1\<rparr>)
       = LABEL_PREVIOUS # map (deviceLabel st) (drop 15 (getOrderedDevices lc st))
     \<and> length (listItemNamesForState lc (st\<lparr>listPageIndex := 1\<rparr>)) = 11
     \<and> getTotalPages lc st = 2"
proof -
  have p0: "listItemNamesForState lc (st\<lparr>listPageIndex := 0\<rparr>)
       = LABEL_BACK # LABEL_ALL # map (deviceLabel st) (take 15 (getOrderedDevices lc st))
         @ [[], LABEL_NEXT]"
    using devices_25_first_page [of lc "st\<lparr>listPageIndex := 0\<rparr>"] assms
    by (simp add: listItemNamesForState_def)
  have p1: "listItemNamesForState lc (st\<lparr>listPageIndex := 1\<rparr>)
       = LABEL_PREVIOUS # map (deviceLabel st) (drop 15 (getOrderedDevices lc st))"
    using devices_25_second_page [of lc "st\<lparr>listPageIndex := 1\<rparr>"] assms
    by (simp add: listItemNamesForState_def)
  have tp: "getTotalPages lc st = 2"
    using assms
    by (simp add: getTotalPages_def DEVICES_PER_PAGE_def SCENES_PER_PAGE_def
        LIST_MAX_ITEMS_def ceilDiv_def)
  have t: "take 17 (listItemNamesForState lc (st\<lparr>listPageIndex := 0\<rparr>))
       = LABEL_BACK # LABEL_ALL # map (deviceLabel st) (take 15 (getOrderedDevices lc st))"
    unfolding p0 using assms(2) by (simp add: take_Cons')
  have l: "last (listItemNamesForState lc (st\<lparr>listPageIndex := 0\<rparr>)) = LABEL_NEXT"
    unfolding p0 by simp
  show ?thesis using t l p1 tp assms(2) by simp
qed

lemma devicesState_ordered_length:
  "length (getOrderedDevices lc (devicesState n)) = n"
  by (simp add: getOrderedDevices_def devicesState_def buildInitialState_def
      DEFAULT_PREFERENCES_def length_applyOrder_sorted)

theorem C1_devices_25_witness:
  "listView (devicesState 25) = VDevices
   \<and> length (getOrderedDevices codeUnitCompare (devicesState 25)) = 25
   \<and> last (listItemNamesForState codeUnitCompare (devicesState 25\<lparr>listPageIndex := 0\<rparr>))
       = LABEL_NEXT
   \<and> length (listItemNamesForState codeUnitCompare (devicesState 25\<lparr>listPageIndex := 1\<rparr>)) = 11
   \<and> getTotalPages codeUnitCompare (devicesState 25) = 2"
proof -
  have v: "listView (devicesState 25) = VDevices"
    by (simp add: devicesState_def)
  show ?thesis
    using v devicesState_ordered_length [of codeUnitCompare 25]
      C1_devices_25 [OF v devicesState_ordered_length [of codeUnitCompare 25]]
    by simp
qed

theorem C1_counterexample:
  "length (getOrderedDevices codeUnitCompare (devicesState 25)) = 25
   \<and> length (listItemNamesForState codeUnitCompare (devicesState 25\<lparr>listPageIndex := 0\<rparr>)) \<noteq> 20
   \<and> listItemNamesForState codeUnitCompare (devicesState 25\<lparr>listPageIndex := 1\<rparr>) ! 1
       = deviceLabel (devicesState 25) (getOrderedDevices codeUnitCompare (devicesState 25) ! 15)
   \<and> length (listItemNamesForState codeUnitCompare (devicesState 25\<lparr>listPageIndex := 1\<rparr>)) \<noteq> 9"
proof -
  define st where "st = devicesState 25"
  have o: "length (getOrderedDevices codeUnitCompare st) = 25"
    unfolding st_def by (rule devicesState_ordered_length)
  have p0: "deviceNamesForListView codeUnitCompare (st\<lparr>listPageIndex := 0\<rparr>)
       = LABEL_BACK # LABEL_ALL
         # map (deviceLabel st) (take 15 (getOrderedDevices codeUnitCompare st)) @ [[], LABEL_NEXT]"
    using devices_25_first_page [of codeUnitCompare "st\<lparr>listPageIndex := 0\<rparr>"] o by simp
  have p1: "deviceNamesForListView codeUnitCompare (st\<lparr>listPageIndex := 1\<rparr>)
       = LABEL_PREVIOUS # map (deviceLabel st) (drop 15 (getOrderedDevices codeUnitCompare st))"
    using devices_25_second_page [of codeUnitCompare "st\<lparr>listPageIndex := 1\<rparr>"] o by simp
  have v: "listView st = VDevices" by (simp add: st_def devicesState_def)
  have "length (listItemNamesForState codeUnitCompare (st\<lparr>listPageIndex := 0\<rparr>)) = 19"
    using p0 o v by (simp add: listItemNamesForState_def)
  moreover have "listItemNamesForState codeUnitCompare (st\<lparr>listPageIndex := 1\<rparr>) ! 1
      = deviceLabel st (getOrderedDevices codeUnitCompare st ! 15)"
    using p1 o v by (simp add: listItemNamesForState_def)
  moreover have "length (listItemNamesForState codeUnitCompare (st\<lparr>listPageIndex := 1\<rparr>)) = 11"
    using p1 o v by (simp add: listItemNamesForState_def)
  ultimately show ?thesis using o unfolding st_def by simp
qed

subsection \<open>Slots of the devices view\<close>

lemma div_less_ceilDiv:
  assumes d: "0 < d" and ab: "a < b"
  shows "a div d < ceilDiv b d"
proof -
  define q where "q = a div d"
  define c where "c = (- b) div d"
  have q: "q * d \<le> a"
  proof -
    have "a = q * d + a mod d" by (simp add: q_def)
    moreover have "0 \<le> a mod d" using d by simp
    ultimately show ?thesis by linarith
  qed
  have c: "c * d \<le> - b"
  proof -
    have "- b = c * d + (- b) mod d" by (simp add: c_def)
    moreover have "0 \<le> (- b) mod d" using d by simp
    ultimately show ?thesis by linarith
  qed
  have "(q + c) * d < 0" using q c ab by (simp add: distrib_right)
  then have "q + c < 0" using d by (simp add: mult_less_0_iff)
  then show ?thesis by (simp add: ceilDiv_def q_def c_def)
qed

lemma div_mod_parts:
  fixes a :: int
  assumes "0 < d" "0 \<le> a"
  obtains q m where "a = q * d + m" "0 \<le> m" "m < d" "0 \<le> q" "a div d = q" "a mod d = m"
proof
  show "a = (a div d) * d + a mod d" by simp
  show "0 \<le> a mod d" "a mod d < d" using assms by simp_all
  show "0 \<le> a div d" using assms by (simp add: pos_imp_zdiv_nonneg_iff)
qed simp_all


lemma deviceSlot_cases:
  assumes "i < n" "deviceSlot n i = (p, s)"
  obtains (single) "n \<le> 16" "p = 0" "s = int i + 2"
  | (first) "17 \<le> n" "i < 15" "p = 0" "s = int i + 2"
  | (later) q m where "17 \<le> n" "15 \<le> i" "int i = 15 + q * 17 + m" "0 \<le> q" "0 \<le> m" "m < 17"
      "p = 1 + q" "s = 1 + m"
proof -
  consider "n \<le> 16" | "17 \<le> n" "i < 15" | "17 \<le> n" "15 \<le> i" by linarith
  then show thesis
  proof cases
    case 1
    then show ?thesis
      using assms single
      by (auto simp: deviceSlot_def DEVICES_PER_PAGE_def SCENES_PER_PAGE_def
          LIST_MAX_ITEMS_def Let_def)
  next
    case 2
    then show ?thesis
      using assms first
      by (auto simp: deviceSlot_def DEVICES_PER_PAGE_def SCENES_PER_PAGE_def
          LIST_MAX_ITEMS_def Let_def)
  next
    case 3
    have a0: "0 \<le> int i - 15" using 3 by simp
    obtain q m where qm: "int i - 15 = q * 17 + m" "0 \<le> m" "m < 17" "0 \<le> q"
      "(int i - 15) div 17 = q" "(int i - 15) mod 17 = m"
      using div_mod_parts [of 17 "int i - 15"] a0 by auto
    have "p = 1 + q" "s = 1 + m"
      using assms 3 qm(5,6)
      by (auto simp: deviceSlot_def DEVICES_PER_PAGE_def SCENES_PER_PAGE_def
          LIST_MAX_ITEMS_def Let_def)
    then show ?thesis using later [of q m] 3 qm by simp
  qed
qed

lemma devices_later_page:
  assumes devs: "getOrderedDevices lc st = devs"
    and n: "17 \<le> length devs"
    and p: "1 \<le> p" "p \<le> ceilDiv (int (length devs) - 15) 17"
    and page: "listPageIndex st = p"
  shows "deviceNamesForListView lc st
     = (let startIndex = 15 + (p - 1) * 17;
            isLast = (p = ceilDiv (int (length devs) - 15) 17);
            contentSlots = (if isLast \<and> int (length devs) - startIndex < 17
                            then int (length devs) - startIndex else 17);
            deviceNames = map (deviceLabel st) (js_slice devs startIndex (startIndex + contentSlots))
        in LABEL_PREVIOUS # (deviceNames @ emptySlots (contentSlots - int (length deviceNames)))
           @ (if isLast then [] else [LABEL_NEXT]))"
proof -
  have n0: "int (length devs) \<noteq> 0" using n by auto
  show ?thesis
    unfolding deviceNamesForListView_def Let_def devs page
    using n n0 p
    by (simp add: DEVICES_PER_PAGE_def SCENES_PER_PAGE_def LIST_MAX_ITEMS_def)
qed

lemma devices_slot_label:
  assumes devs: "getOrderedDevices lc st = devs"
    and i: "i < length devs"
    and slot: "deviceSlot (length devs) i = (p, s)"
    and page: "listPageIndex st = p"
  shows "deviceNamesForListView lc st ! nat s = deviceLabel st (devs ! i)"
proof -
  let ?n = "int (length devs)"
  have n0: "?n \<noteq> 0" using i by auto
  from i slot show ?thesis
  proof (cases rule: deviceSlot_cases)
    case single
    have "deviceNamesForListView lc st = LABEL_BACK # LABEL_ALL # map (deviceLabel st) devs"
      using devices_single_page [OF devs _ _ page [unfolded single(2)]] n0 single by auto
    then show ?thesis using single i by (simp add: nat_add_distrib)
  next
    case first
    have tp: "ceilDiv (?n - 15) 17 \<ge> 1" using first by (simp add: ceilDiv_def)
    have "deviceNamesForListView lc st
        = LABEL_BACK # LABEL_ALL # map (deviceLabel st) (take 15 devs) @ [[], LABEL_NEXT]"
      unfolding deviceNamesForListView_def Let_def devs page first
      using first n0 tp
      by (simp add: DEVICES_PER_PAGE_def SCENES_PER_PAGE_def LIST_MAX_ITEMS_def
          js_slice_nonneg emptySlots_def)
    then show ?thesis using first i by (simp add: nat_add_distrib nth_append)
  next
    case (later q m)
    define start where "start = 15 + q * 17"
    have p1: "1 \<le> p" using later by simp
    have "(int i - 15) div 17 < ceilDiv (?n - 15) 17"
      using div_less_ceilDiv [of 17 "int i - 15" "?n - 15"] i by simp
    moreover have "(int i - 15) div 17 = q"
      using later by (simp add: div_pos_pos_trivial)
    ultimately have ple: "p \<le> ceilDiv (?n - 15) 17" using later by simp
    have start0: "0 \<le> start" using later by (simp add: start_def)
    have r: "int i = start + m" using later by (simp add: start_def)
    define cs where "cs = (if p = ceilDiv (?n - 15) 17 \<and> ?n - start < 17 then ?n - start else 17)"
    have csr: "m < cs" using r i later by (auto simp: cs_def)
    have cs0: "0 \<le> cs" using csr later by simp
    have pst: "15 + (p - 1) * 17 = start" using later by (simp add: start_def)
    have sl: "js_slice devs start (start + cs) = take (nat cs) (drop (nat start) devs)"
      using js_slice_nonneg [of start "start + cs" devs] start0 cs0 by simp
    have names: "deviceNamesForListView lc st
        = LABEL_PREVIOUS # (map (deviceLabel st) (take (nat cs) (drop (nat start) devs))
            @ emptySlots (cs - int (length (map (deviceLabel st)
                (take (nat cs) (drop (nat start) devs))))))
          @ (if p = ceilDiv (?n - 15) 17 then [] else [LABEL_NEXT])"
      unfolding devices_later_page [OF devs later(1) p1 ple page] Let_def pst
        cs_def [symmetric] sl ..
    have rn: "nat m < nat cs" using csr later by simp
    have idx: "nat start + nat m = i" using r start0 later by simp
    have len: "nat m < length (take (nat cs) (drop (nat start) devs))"
      using rn idx i by simp
    have "deviceNamesForListView lc st ! nat s
        = map (deviceLabel st) (take (nat cs) (drop (nat start) devs)) ! nat m"
      unfolding names using len later
      by (simp add: nat_add_distrib nth_append)
    also have "\<dots> = deviceLabel st (devs ! i)"
      using len rn idx i by simp
    finally show ?thesis .
  qed
qed

lemma devices_slot_index:
  assumes devs: "getOrderedDevices lc st = devs"
    and i: "i < length devs"
    and slot: "deviceSlot (length devs) i = (p, s)"
  shows "getDeviceIndexFromDevicesList lc st p s = int i"
  using i slot
proof (cases rule: deviceSlot_cases)
  case single
  then show ?thesis
    unfolding getDeviceIndexFromDevicesList_def Let_def devs
    using i by (simp add: DEVICES_PER_PAGE_def SCENES_PER_PAGE_def LIST_MAX_ITEMS_def)
next
  case first
  then show ?thesis
    unfolding getDeviceIndexFromDevicesList_def Let_def devs
    using i by (simp add: DEVICES_PER_PAGE_def SCENES_PER_PAGE_def LIST_MAX_ITEMS_def)
next
  case (later q m)
  then show ?thesis
    unfolding getDeviceIndexFromDevicesList_def Let_def devs
    using i by (simp add: DEVICES_PER_PAGE_def SCENES_PER_PAGE_def LIST_MAX_ITEMS_def)
qed

subsection \<open>Slots of the scenes, rooms and favourites views\<close>

lemma map_js_slice: "map f (js_slice xs a b) = js_slice (map f xs) a b"
  by (simp add: js_slice_def Let_def take_map drop_map)

lemma sceneNames_paged:
  "getOrderedScenes lc st \<noteq> [] \<Longrightarrow>
     sceneNamesForListView lc st
       = pagedNames (getOrderedScenes lc st)
           (\<lambda>s. truncateName (getDisplayName st EScene (sceneId s) (sceneName s)) (str ''Scene''))
           (listPageIndex st)"
  unfolding sceneNamesForListView_def pagedNames_def Let_def by simp

lemma roomNames_paged:
  "getOrderedRooms lc st \<noteq> [] \<Longrightarrow>
     roomNamesForListView lc st
       = pagedNames (getOrderedRooms lc st)
           (\<lambda>r. truncateName (getDisplayName st ERoom (roomId r) (roomName r)) (str ''Room''))
           (listPageIndex st)"
  unfolding roomNamesForListView_def pagedNames_def Let_def ROOMS_PER_PAGE_def by simp

lemma favoriteNames_paged:
  "getOrderedFavorites lc st \<noteq> [] \<Longrightarrow>
     favoriteNamesForListView lc st
       = pagedNames (getOrderedFavorites lc st)
           (\<lambda>f. truncateName (fav_displayName f) (str ''Scene''))
           (listPageIndex st)"
  unfolding favoriteNamesForListView_def pagedNames_def Let_def by simp

lemma listSlot_cases:
  assumes "i < n" "listSlot n i = (p, s)"
  obtains (single) "n \<le> 18" "p = 0" "s = int i + 1"
  | (first) "19 \<le> n" "i < 17" "p = 0" "s = int i + 1"
  | (later) q m where "19 \<le> n" "17 \<le> i" "int i = 17 + q * 18 + m" "0 \<le> q" "0 \<le> m" "m < 18"
      "p = 1 + q" "s = 1 + m"
proof -
  consider "n \<le> 18" | "19 \<le> n" "i < 17" | "19 \<le> n" "17 \<le> i" by linarith
  then show thesis
  proof cases
    case 1
    then show ?thesis
      using assms single
      by (auto simp: listSlot_def SCENES_PER_PAGE_def LIST_MAX_ITEMS_def Let_def)
  next
    case 2
    then show ?thesis
      using assms first
      by (auto simp: listSlot_def SCENES_PER_PAGE_def LIST_MAX_ITEMS_def Let_def)
  next
    case 3
    have a0: "0 \<le> int i - 17" using 3 by simp
    obtain q m where qm: "int i - 17 = q * 18 + m" "0 \<le> m" "m < 18" "0 \<le> q"
      "(int i - 17) div 18 = q" "(int i - 17) mod 18 = m"
      using div_mod_parts [of 18 "int i - 17"] a0 by auto
    have "p = 1 + q" "s = 1 + m"
      using assms 3 qm(5,6)
      by (auto simp: listSlot_def SCENES_PER_PAGE_def LIST_MAX_ITEMS_def Let_def)
    then show ?thesis using later [of q m] 3 qm by simp
  qed
qed

lemma paged_single_page:
  assumes "xs \<noteq> []" "length xs \<le> 18"
  shows "pagedNames xs label 0 = LABEL_BACK # map label xs"
  unfolding pagedNames_def Let_def
  using assms by (simp add: SCENES_PER_PAGE_def LIST_MAX_ITEMS_def js_slice_nonneg)

lemma paged_first_page:
  assumes "19 \<le> length xs"
  shows "pagedNames xs label 0 = LABEL_BACK # map label (take 17 xs) @ [LABEL_NEXT]"
proof -
  have tp: "ceilDiv (int (length xs) - 17) 18 \<ge> 1" using assms by (simp add: ceilDiv_def)
  show ?thesis
    unfolding pagedNames_def Let_def
    using assms tp
    by (simp add: SCENES_PER_PAGE_def LIST_MAX_ITEMS_def js_slice_nonneg emptySlots_def)
qed

lemma paged_later_page:
  assumes n: "19 \<le> length xs"
    and p: "1 \<le> p" "p \<le> ceilDiv (int (length xs) - 17) 18"
  shows "pagedNames xs label p
     = (let startIndex = 17 + (p - 1) * 18;
            names = map label (js_slice xs startIndex (startIndex + 18))
        in LABEL_PREVIOUS # (names @ emptySlots (18 - int (length names)))
           @ (if p = ceilDiv (int (length xs) - 17) 18 then [] else [LABEL_NEXT]))"
  unfolding pagedNames_def Let_def
  using n p
  by (simp add: SCENES_PER_PAGE_def LIST_MAX_ITEMS_def)

lemma paged_slot:
  assumes i: "i < length xs"
    and slot: "listSlot (length xs) i = (p, s)"
  shows "pagedNames xs label p ! nat s = label (xs ! i)
       \<and> (p \<noteq> pagedTotalPages (int (length xs)) - 1 \<longrightarrow>
            s \<noteq> max 0 (int (length (pagedNames xs label p)) - 1))
       \<and> 0 \<le> p \<and> p < pagedTotalPages (int (length xs)) \<and> 1 \<le> s"
proof -
  let ?n = "int (length xs)"
  have x0: "xs \<noteq> []" using i by auto
  from i slot show ?thesis
  proof (cases rule: listSlot_cases)
    case single
    have "pagedNames xs label p = LABEL_BACK # map label xs"
      using paged_single_page [OF x0] single by simp
    then show ?thesis
      using single i
      by (simp add: nat_add_distrib pagedTotalPages_def SCENES_PER_PAGE_def LIST_MAX_ITEMS_def)
  next
    case first
    have tp: "ceilDiv (?n - 17) 18 \<ge> 1" using first by (simp add: ceilDiv_def)
    have "pagedNames xs label p = LABEL_BACK # map label (take 17 xs) @ [LABEL_NEXT]"
      using paged_first_page first by simp
    then show ?thesis
      using first i tp
      by (simp add: nat_add_distrib nth_append pagedTotalPages_def SCENES_PER_PAGE_def
          LIST_MAX_ITEMS_def)
  next
    case (later q m)
    define start where "start = 17 + q * 18"
    have p1: "1 \<le> p" using later by simp
    have "(int i - 17) div 18 < ceilDiv (?n - 17) 18"
      using div_less_ceilDiv [of 18 "int i - 17" "?n - 17"] i by simp
    moreover have "(int i - 17) div 18 = q"
      using later by (simp add: div_pos_pos_trivial)
    ultimately have ple: "p \<le> ceilDiv (?n - 17) 18" using later by simp
    have start0: "0 \<le> start" using later by (simp add: start_def)
    have r: "int i = start + m" using later by (simp add: start_def)
    have pst: "17 + (p - 1) * 18 = start" using later by (simp add: start_def)
    have sl: "js_slice xs start (start + 18) = take 18 (drop (nat start) xs)"
      using js_slice_nonneg [of start "start + 18" xs] start0 by simp
    define names where "names = map label (take 18 (drop (nat start) xs))"
    have eq: "pagedNames xs label p
        = LABEL_PREVIOUS # (names @ emptySlots (18 - int (length names)))
          @ (if p = ceilDiv (?n - 17) 18 then [] else [LABEL_NEXT])"
      unfolding paged_later_page [OF later(1) p1 ple] Let_def pst sl names_def ..
    have idx: "nat start + nat m = i" using r start0 later by simp
    have "nat m < 18" "nat m < length xs - nat start"
      using idx i later by linarith+
    then have len: "nat m < length names"
      by (simp add: names_def)
    have lab: "pagedNames xs label p ! nat s = label (xs ! i)"
    proof -
      have "pagedNames xs label p ! nat s = names ! nat m"
        unfolding eq using len later by (simp add: nat_add_distrib nth_append)
      also have "\<dots> = label (xs ! i)"
        using len idx i by (simp add: names_def)
      finally show ?thesis .
    qed
    have ln: "length names \<le> 18" by (simp add: names_def)
    have total: "length (names @ emptySlots (18 - int (length names))) = 18"
      using ln by (simp add: emptySlots_def)
    have nl: "p \<noteq> ceilDiv (?n - 17) 18 \<longrightarrow> s \<noteq> max 0 (int (length (pagedNames xs label p)) - 1)"
      unfolding eq using total later by simp
    have tpv: "pagedTotalPages ?n = 1 + ceilDiv (?n - 17) 18"
      using later by (simp add: pagedTotalPages_def SCENES_PER_PAGE_def LIST_MAX_ITEMS_def)
    show ?thesis using lab nl tpv p1 ple later by simp
  qed
qed

subsection \<open>The length of an ordered collection\<close>

lemma mapSet_keys: "fst ` set (mapSet m k v) = insert k (fst ` set m)"
proof (induction m)
  case Nil
  then show ?case by simp
next
  case (Cons e m)
  obtain k' v' where e: "e = (k', v')" by (cases e)
  show ?case using Cons.IH e by (cases "k' = k") auto
qed

lemma distinct_mapSet: "distinct (map fst m) \<Longrightarrow> distinct (map fst (mapSet m k v))"
proof (induction m)
  case Nil
  then show ?case by simp
next
  case (Cons e m)
  obtain k' v' where e: "e = (k', v')" by (cases e)
  show ?case
  proof (cases "k' = k")
    case True
    then show ?thesis using Cons.prems e by simp
  next
    case False
    have "k' \<notin> fst ` set (mapSet m k v)"
      using Cons.prems e False by (simp add: mapSet_keys)
    then show ?thesis using Cons e False by simp
  qed
qed

lemma length_mapSet: "length (mapSet m k v) \<le> Suc (length m)"
  by (induction m) auto

lemma distinct_newMap: "distinct (map fst m) \<Longrightarrow> distinct (map fst (newMap m es))"
  by (induction es arbitrary: m) (auto simp: distinct_mapSet)

lemma length_newMap: "length (newMap m es) \<le> length m + length es"
proof (induction es arbitrary: m)
  case Nil
  then show ?case by simp
next
  case (Cons e es)
  obtain k v where e: "e = (k, v)" by (cases e)
  have "length (newMap (mapSet m k v) es) \<le> length (mapSet m k v) + length es"
    by (rule Cons.IH)
  then show ?case using length_mapSet [of m k v] e by simp
qed

lemma length_applyOrder_le:
  "length (applyOrder lc items getKey getName preference customIds) \<le> length items"
proof (cases "preference = Custom")
  case False
  then show ?thesis by (simp add: length_applyOrder_sorted)
next
  case True
  define byId where "byId = newMap [] (map (\<lambda>item. (getKey item, item)) items)"
  define w where "w = customWalk customIds byId []"
  have d: "distinct (map fst byId)"
    unfolding byId_def by (rule distinct_newMap) simp
  have "mset (fst w) + mset (map snd (snd w)) = mset (map snd byId)"
    using customWalk_mset [OF d, of customIds "[]"] by (simp add: w_def)
  then have "size (mset (fst w) + mset (map snd (snd w))) = size (mset (map snd byId))"
    by simp
  then have "length (fst w) + length (snd w) = length byId" by simp
  moreover have "length byId \<le> length items"
    using length_newMap [of "[]" "map (\<lambda>item. (getKey item, item)) items"]
    by (simp add: byId_def)
  ultimately show ?thesis
    using True
    by (simp add: applyOrder_def Let_def byId_def [symmetric] w_def [symmetric]
        length_jsSort mapValues_def)
qed

lemma length_getOrderedFavorites:
  "length (getOrderedFavorites lc st) = length (favoritesIds (preferences st))"
  by (simp add: getOrderedFavorites_def Let_def length_jsSort)


subsection \<open>The tap router on an entity slot\<close>

lemma router_scene_slot:
  assumes lv: "listView st = VScenes"
    and xs: "getOrderedScenes lc st = xs"
    and i: "i < length xs"
    and slot: "listSlot (length xs) i = (p, s)"
    and page: "listPageIndex st = p"
  shows "commitTapCommands lc st s 1
     = Dispatched (TAP s None) # runExecuteScene lc (reduce st (TAP s None)) (int i)"
proof -
  let ?label = "\<lambda>x. truncateName (getDisplayName st EScene (sceneId x) (sceneName x)) (str ''Scene'')"
  have x0: "xs \<noteq> []" using i by auto
  have n0: "int (length xs) \<noteq> 0" using i by auto
  have tp: "getTotalPages lc st = pagedTotalPages (int (length xs))"
    using lv n0 by (simp add: getTotalPages_def xs pagedTotalPages_def Let_def)
  have lli: "getLastListIndex lc st = max 0 (int (length (pagedNames xs ?label p)) - 1)"
    using lv x0 sceneNames_paged [of lc st]
    by (simp add: getLastListIndex_def listItemNamesForState_def xs page)
  have ps: "p \<noteq> pagedTotalPages (int (length xs)) - 1 \<longrightarrow>
              s \<noteq> max 0 (int (length (pagedNames xs ?label p)) - 1)"
    "1 \<le> s"
    using paged_slot [OF i slot, of ?label] by simp_all
  have act: "(if p = 0 then s - 1
              else getFirstPageContentSlots lc st + (p - 1) * SCENES_PER_PAGE + (s - 1)) = int i"
    using i slot
  proof (cases rule: listSlot_cases)
    case single
    then show ?thesis by simp
  next
    case first
    then show ?thesis by simp
  next
    case (later q m)
    have "length xs \<le> length (scenes st)"
      using length_applyOrder_le [of lc "scenes st" sceneId sceneName] xs
      by (auto simp: getOrderedScenes_def)
    then have "getFirstPageContentSlots lc st = 17"
      using lv later
      by (simp add: getFirstPageContentSlots_def SCENES_PER_PAGE_def LIST_MAX_ITEMS_def)
    then show ?thesis using later by (simp add: SCENES_PER_PAGE_def LIST_MAX_ITEMS_def)
  qed
  have s0: "s \<noteq> 0" using ps by simp
  have nx: "\<not> (listPageIndex st \<noteq> getTotalPages lc st - 1 \<and> s = getLastListIndex lc st)"
    unfolding tp lli page using ps(1) by blast
  show ?thesis
    unfolding commitTapCommands_def Let_def
    using lv s0 nx i
    by (simp add: isPaginatedList_def act [unfolded page [symmetric]] xs)
qed


lemma router_room_slot:
  assumes lv: "listView st = VRooms"
    and xs: "getOrderedRooms lc st = xs"
    and i: "i < length xs"
    and slot: "listSlot (length xs) i = (p, s)"
    and page: "listPageIndex st = p"
  shows "commitTapCommands lc st s 1
     = [Dispatched (NAV_ROOM (roomId (xs ! i))), RefreshPage,
        LoadDevicesForRoom (roomId (xs ! i))]"
proof -
  let ?label = "\<lambda>r. truncateName (getDisplayName st ERoom (roomId r) (roomName r)) (str ''Room'')"
  have x0: "xs \<noteq> []" using i by auto
  have n0: "int (length xs) \<noteq> 0" using i by auto
  have tp: "getTotalPages lc st = pagedTotalPages (int (length xs))"
    using lv n0
    by (simp add: getTotalPages_def xs pagedTotalPages_def Let_def ROOMS_PER_PAGE_def)
  have lli: "getLastListIndex lc st = max 0 (int (length (pagedNames xs ?label p)) - 1)"
    using lv x0 roomNames_paged [of lc st]
    by (simp add: getLastListIndex_def listItemNamesForState_def xs page)
  have ps: "p \<noteq> pagedTotalPages (int (length xs)) - 1 \<longrightarrow>
              s \<noteq> max 0 (int (length (pagedNames xs ?label p)) - 1)"
    "1 \<le> s"
    using paged_slot [OF i slot, of ?label] by simp_all
  have act: "(if p = 0 then s - 1
              else getFirstPageContentSlots lc st + (p - 1) * ROOMS_PER_PAGE + (s - 1)) = int i"
    using i slot
  proof (cases rule: listSlot_cases)
    case single
    then show ?thesis by simp
  next
    case first
    then show ?thesis by simp
  next
    case (later q m)
    have "length xs \<le> length (rooms st)"
      using length_applyOrder_le [of lc "rooms st" roomId roomName] xs
      by (auto simp: getOrderedRooms_def)
    then have "getFirstPageContentSlots lc st = 17"
      using lv later
      by (simp add: getFirstPageContentSlots_def ROOMS_PER_PAGE_def SCENES_PER_PAGE_def
          LIST_MAX_ITEMS_def)
    then show ?thesis
      using later by (simp add: ROOMS_PER_PAGE_def SCENES_PER_PAGE_def LIST_MAX_ITEMS_def)
  qed
  have s0: "s \<noteq> 0" using ps by simp
  have nx: "\<not> (listPageIndex st \<noteq> getTotalPages lc st - 1 \<and> s = getLastListIndex lc st)"
    unfolding tp lli page using ps(1) by blast
  have room: "getRoomByIndex lc st (int i) = Some (xs ! i)"
    using i by (simp add: getRoomByIndex_def xs at_def)
  show ?thesis
    unfolding commitTapCommands_def Let_def
    using lv s0 nx
    by (auto simp: isPaginatedList_def act [unfolded page [symmetric]] room)
qed

lemma router_favorite_slot:
  assumes lv: "listView st = VFavorites"
    and xs: "getOrderedFavorites lc st = xs"
    and i: "i < length xs"
    and slot: "listSlot (length xs) i = (p, s)"
    and page: "listPageIndex st = p"
  shows "commitTapCommands lc st s 1 = openFavorite lc st s (xs ! i)"
proof -
  let ?label = "\<lambda>f. truncateName (fav_displayName f) (str ''Scene'')"
  have x0: "xs \<noteq> []" using i by auto
  have n0: "int (length xs) \<noteq> 0" using i by auto
  have tp: "getTotalPages lc st = pagedTotalPages (int (length xs))"
    using lv n0 by (simp add: getTotalPages_def xs pagedTotalPages_def Let_def)
  have lli: "getLastListIndex lc st = max 0 (int (length (pagedNames xs ?label p)) - 1)"
    using lv x0 favoriteNames_paged [of lc st]
    by (simp add: getLastListIndex_def listItemNamesForState_def xs page)
  have ps: "p \<noteq> pagedTotalPages (int (length xs)) - 1 \<longrightarrow>
              s \<noteq> max 0 (int (length (pagedNames xs ?label p)) - 1)"
    "1 \<le> s"
    using paged_slot [OF i slot, of ?label] by simp_all
  have act: "(if p = 0 then s - 1
              else getFirstPageContentSlots lc st + (p - 1) * SCENES_PER_PAGE + (s - 1)) = int i"
    using i slot
  proof (cases rule: listSlot_cases)
    case single
    then show ?thesis by simp
  next
    case first
    then show ?thesis by simp
  next
    case (later q m)
    have "getFirstPageContentSlots lc st = 17"
      using lv later
      by (simp add: getFirstPageContentSlots_def xs SCENES_PER_PAGE_def LIST_MAX_ITEMS_def)
    then show ?thesis using later by (simp add: SCENES_PER_PAGE_def LIST_MAX_ITEMS_def)
  qed
  have s0: "s \<noteq> 0" using ps by simp
  have nx: "\<not> (listPageIndex st \<noteq> getTotalPages lc st - 1 \<and> s = getLastListIndex lc st)"
    unfolding tp lli page using ps(1) by blast
  have fav: "getFavoriteByIndex lc st (int i) = Some (xs ! i)"
    using i by (simp add: getFavoriteByIndex_def xs at_def)
  show ?thesis
    unfolding commitTapCommands_def Let_def
    using lv s0 nx
    by (auto simp: isPaginatedList_def act [unfolded page [symmetric]] fav)
qed


lemma devices_slot_not_next:
  assumes devs: "getOrderedDevices lc st = devs"
    and i: "i < length devs"
    and slot: "deviceSlot (length devs) i = (p, s)"
    and page: "listPageIndex st = p"
    and lv: "listView st = VDevices"
  shows "p = getTotalPages lc st - 1
       \<or> s \<noteq> max 0 (int (length (deviceNamesForListView lc st)) - 1)"
proof -
  let ?n = "int (length devs)"
  have n0: "?n \<noteq> 0" using i by auto
  from i slot show ?thesis
  proof (cases rule: deviceSlot_cases)
    case single
    then have "getTotalPages lc st = 1"
      using lv n0
      by (simp add: getTotalPages_def devs Let_def DEVICES_PER_PAGE_def SCENES_PER_PAGE_def
          LIST_MAX_ITEMS_def)
    then show ?thesis using single by simp
  next
    case first
    have tp: "ceilDiv (?n - 15) 17 \<ge> 1" using first by (simp add: ceilDiv_def)
    have "deviceNamesForListView lc st
        = LABEL_BACK # LABEL_ALL # map (deviceLabel st) (take 15 devs) @ [[], LABEL_NEXT]"
      unfolding deviceNamesForListView_def Let_def devs page first
      using first n0 tp
      by (simp add: DEVICES_PER_PAGE_def SCENES_PER_PAGE_def LIST_MAX_ITEMS_def
          js_slice_nonneg emptySlots_def)
    then show ?thesis using first by simp
  next
    case (later q m)
    have p1: "1 \<le> p" using later by simp
    have "(int i - 15) div 17 < ceilDiv (?n - 15) 17"
      using div_less_ceilDiv [of 17 "int i - 15" "?n - 15"] i by simp
    moreover have "(int i - 15) div 17 = q"
      using later by (simp add: div_pos_pos_trivial)
    ultimately have ple: "p \<le> ceilDiv (?n - 15) 17" using later by simp
    have tpv: "getTotalPages lc st = 1 + ceilDiv (?n - 15) 17"
      using lv n0 later
      by (simp add: getTotalPages_def devs Let_def DEVICES_PER_PAGE_def SCENES_PER_PAGE_def
          LIST_MAX_ITEMS_def)
    show ?thesis
    proof (cases "p = ceilDiv (?n - 15) 17")
      case True
      then show ?thesis using tpv by simp
    next
      case False
      define names where
        "names = map (deviceLabel st) (js_slice devs (15 + (p - 1) * 17) (15 + (p - 1) * 17 + 17))"
      have eq: "deviceNamesForListView lc st
          = LABEL_PREVIOUS # (names @ emptySlots (17 - int (length names))) @ [LABEL_NEXT]"
        unfolding devices_later_page [OF devs later(1) p1 ple page] Let_def names_def
        using False by simp
      have "length names \<le> 17"
        using p1 by (simp add: names_def js_slice_nonneg)
      then have "length (names @ emptySlots (17 - int (length names))) = 17"
        by (simp add: emptySlots_def)
      then show ?thesis unfolding eq using later by simp
    qed
  qed
qed

lemma router_device_slot:
  assumes lv: "listView st = VDevices"
    and xs: "getOrderedDevices lc st = xs"
    and i: "i < length xs"
    and slot: "deviceSlot (length xs) i = (p, s)"
    and page: "listPageIndex st = p"
  shows "commitTapCommands lc st s 1
     = [Dispatched (NAV_DEVICE (deviceId (xs ! i))), RefreshPage,
        LoadDeviceStats (deviceId (xs ! i))]"
proof -
  have s2: "1 \<le> s"
    using i slot by (cases rule: deviceSlot_cases) simp_all
  have s0: "s \<noteq> 0" using s2 by simp
  have nx: "\<not> (listPageIndex st \<noteq> getTotalPages lc st - 1 \<and> s = getLastListIndex lc st)"
    using devices_slot_not_next [OF xs i slot page lv] lv
    by (auto simp: getLastListIndex_def listItemNamesForState_def page)
  have idx: "getDeviceIndexFromDevicesList lc st (listPageIndex st) s = int i"
    using devices_slot_index [OF xs i slot] page by simp
  have dev: "getDeviceByIndex lc st (int i) = Some (xs ! i)"
    using i by (simp add: getDeviceByIndex_def xs at_def)
  show ?thesis
    unfolding commitTapCommands_def Let_def
    using lv s0 nx
    by (auto simp: isPaginatedList_def idx dev)
qed

text \<open>
  Claim C2. The index mapping inverts the slot placement. Where the composer shows the
  \<open>i\<close>-th ordered device (page \<open>p\<close>, position \<open>s\<close>), the list of that page carries the
  device's label at \<open>s\<close>, \<open>getDeviceIndexFromDevicesList\<close> at \<open>(p, s)\<close> returns \<open>i\<close>, and a
  single tap there opens that device. In the scenes, rooms and favourites views the
  list carries the entity's label at its slot and the router's page and slot arithmetic
  recovers the entity: a single tap there executes the \<open>i\<close>-th scene, opens the \<open>i\<close>-th
  room, opens the \<open>i\<close>-th favourite.
\<close>

theorem C2_index_inverse:
  "(i < length (getOrderedDevices lc st)
      \<and> deviceSlot (length (getOrderedDevices lc st)) i = (p, s) \<and> listPageIndex st = p \<longrightarrow>
      deviceNamesForListView lc st ! nat s = deviceLabel st (getOrderedDevices lc st ! i)
      \<and> getDeviceIndexFromDevicesList lc st p s = int i
      \<and> (listView st = VDevices \<longrightarrow>
          commitTapCommands lc st s 1
            = [Dispatched (NAV_DEVICE (deviceId (getOrderedDevices lc st ! i))), RefreshPage,
               LoadDeviceStats (deviceId (getOrderedDevices lc st ! i))]))
   \<and> (listView st = VScenes \<and> i < length (getOrderedScenes lc st)
      \<and> listSlot (length (getOrderedScenes lc st)) i = (p, s) \<and> listPageIndex st = p \<longrightarrow>
      sceneNamesForListView lc st ! nat s
        = truncateName (getDisplayName st EScene (sceneId (getOrderedScenes lc st ! i))
            (sceneName (getOrderedScenes lc st ! i))) (str ''Scene'')
      \<and> commitTapCommands lc st s 1
          = Dispatched (TAP s None) # runExecuteScene lc (reduce st (TAP s None)) (int i))
   \<and> (listView st = VRooms \<and> i < length (getOrderedRooms lc st)
      \<and> listSlot (length (getOrderedRooms lc st)) i = (p, s) \<and> listPageIndex st = p \<longrightarrow>
      roomNamesForListView lc st ! nat s
        = truncateName (getDisplayName st ERoom (roomId (getOrderedRooms lc st ! i))
            (roomName (getOrderedRooms lc st ! i))) (str ''Room'')
      \<and> commitTapCommands lc st s 1
          = [Dispatched (NAV_ROOM (roomId (getOrderedRooms lc st ! i))), RefreshPage,
             LoadDevicesForRoom (roomId (getOrderedRooms lc st ! i))])
   \<and> (listView st = VFavorites \<and> i < length (getOrderedFavorites lc st)
      \<and> listSlot (length (getOrderedFavorites lc st)) i = (p, s) \<and> listPageIndex st = p \<longrightarrow>
      favoriteNamesForListView lc st ! nat s
        = truncateName (fav_displayName (getOrderedFavorites lc st ! i)) (str ''Scene'')
      \<and> commitTapCommands lc st s 1 = openFavorite lc st s (getOrderedFavorites lc st ! i))"
proof (intro conjI impI)
  assume a: "i < length (getOrderedDevices lc st)
      \<and> deviceSlot (length (getOrderedDevices lc st)) i = (p, s) \<and> listPageIndex st = p"
  show "deviceNamesForListView lc st ! nat s = deviceLabel st (getOrderedDevices lc st ! i)"
    using a devices_slot_label [OF refl, of i lc st p s] by simp
  show "getDeviceIndexFromDevicesList lc st p s = int i"
    using a devices_slot_index [OF refl, of i lc st p s] by simp
  assume "listView st = VDevices"
  then show "commitTapCommands lc st s 1
            = [Dispatched (NAV_DEVICE (deviceId (getOrderedDevices lc st ! i))), RefreshPage,
               LoadDeviceStats (deviceId (getOrderedDevices lc st ! i))]"
    using a router_device_slot [OF _ refl, of st i lc p s] by simp
next
  assume a: "listView st = VScenes \<and> i < length (getOrderedScenes lc st)
      \<and> listSlot (length (getOrderedScenes lc st)) i = (p, s) \<and> listPageIndex st = p"
  then have "getOrderedScenes lc st \<noteq> []" by auto
  then show "sceneNamesForListView lc st ! nat s
        = truncateName (getDisplayName st EScene (sceneId (getOrderedScenes lc st ! i))
            (sceneName (getOrderedScenes lc st ! i))) (str ''Scene'')"
    using a paged_slot [of i "getOrderedScenes lc st" p s] by (simp add: sceneNames_paged)
  show "commitTapCommands lc st s 1
          = Dispatched (TAP s None) # runExecuteScene lc (reduce st (TAP s None)) (int i)"
    using a router_scene_slot [OF _ refl, of st i lc p s] by simp
next
  assume a: "listView st = VRooms \<and> i < length (getOrderedRooms lc st)
      \<and> listSlot (length (getOrderedRooms lc st)) i = (p, s) \<and> listPageIndex st = p"
  then have "getOrderedRooms lc st \<noteq> []" by auto
  then show "roomNamesForListView lc st ! nat s
        = truncateName (getDisplayName st ERoom (roomId (getOrderedRooms lc st ! i))
            (roomName (getOrderedRooms lc st ! i))) (str ''Room'')"
    using a paged_slot [of i "getOrderedRooms lc st" p s] by (simp add: roomNames_paged)
  show "commitTapCommands lc st s 1
          = [Dispatched (NAV_ROOM (roomId (getOrderedRooms lc st ! i))), RefreshPage,
             LoadDevicesForRoom (roomId (getOrderedRooms lc st ! i))]"
    using a router_room_slot [OF _ refl, of st i lc p s] by simp
next
  assume a: "listView st = VFavorites \<and> i < length (getOrderedFavorites lc st)
      \<and> listSlot (length (getOrderedFavorites lc st)) i = (p, s) \<and> listPageIndex st = p"
  then have "getOrderedFavorites lc st \<noteq> []" by auto
  then show "favoriteNamesForListView lc st ! nat s
        = truncateName (fav_displayName (getOrderedFavorites lc st ! i)) (str ''Scene'')"
    using a paged_slot [of i "getOrderedFavorites lc st" p s] by (simp add: favoriteNames_paged)
  show "commitTapCommands lc st s 1 = openFavorite lc st s (getOrderedFavorites lc st ! i)"
    using a router_favorite_slot [OF _ refl, of st i lc p s] by simp
qed

lemma deviceSlot_25_20: "deviceSlot 25 20 = (1, 6)"
  by (simp add: deviceSlot_def DEVICES_PER_PAGE_def SCENES_PER_PAGE_def LIST_MAX_ITEMS_def)

lemma listSlot_2_1: "listSlot 2 1 = (0, 2)" "listSlot 1 0 = (0, 1)"
  by (simp_all add: listSlot_def SCENES_PER_PAGE_def LIST_MAX_ITEMS_def)

lemma exampleHome_lengths:
  "length (getOrderedScenes lc (exampleHome\<lparr>listView := v\<rparr>)) = 2"
  "length (getOrderedRooms lc (exampleHome\<lparr>listView := v\<rparr>)) = 2"
  "length (getOrderedFavorites lc (exampleHome\<lparr>listView := v\<rparr>)) = 1"
  by (simp_all add: getOrderedScenes_def getOrderedRooms_def length_getOrderedFavorites
      length_applyOrder_sorted exampleHome_def buildInitialState_def DEFAULT_PREFERENCES_def)

theorem C2_index_inverse_witness:
  "20 < length (getOrderedDevices codeUnitCompare (devicesState 25\<lparr>listPageIndex := 1\<rparr>))
   \<and> deviceSlot 25 20 = (1, 6)
   \<and> getDeviceIndexFromDevicesList codeUnitCompare (devicesState 25\<lparr>listPageIndex := 1\<rparr>) 1 6 = 20
   \<and> commitTapCommands codeUnitCompare (devicesState 25\<lparr>listPageIndex := 1\<rparr>) 6 1
       = [Dispatched (NAV_DEVICE (deviceId
            (getOrderedDevices codeUnitCompare (devicesState 25\<lparr>listPageIndex := 1\<rparr>) ! 20))),
          RefreshPage,
          LoadDeviceStats (deviceId
            (getOrderedDevices codeUnitCompare (devicesState 25\<lparr>listPageIndex := 1\<rparr>) ! 20))]
   \<and> listSlot 2 1 = (0, 2)
   \<and> commitTapCommands codeUnitCompare (exampleHome\<lparr>listView := VScenes\<rparr>) 2 1
       = Dispatched (TAP 2 None)
         # runExecuteScene codeUnitCompare
             (reduce (exampleHome\<lparr>listView := VScenes\<rparr>) (TAP 2 None)) 1
   \<and> commitTapCommands codeUnitCompare (exampleHome\<lparr>listView := VRooms\<rparr>) 2 1
       = [Dispatched (NAV_ROOM (roomId
            (getOrderedRooms codeUnitCompare (exampleHome\<lparr>listView := VRooms\<rparr>) ! 1))),
          RefreshPage,
          LoadDevicesForRoom (roomId
            (getOrderedRooms codeUnitCompare (exampleHome\<lparr>listView := VRooms\<rparr>) ! 1))]
   \<and> commitTapCommands codeUnitCompare (exampleHome\<lparr>listView := VFavorites\<rparr>) 1 1
       = openFavorite codeUnitCompare (exampleHome\<lparr>listView := VFavorites\<rparr>) 1
           (getOrderedFavorites codeUnitCompare (exampleHome\<lparr>listView := VFavorites\<rparr>) ! 0)"
proof -
  have d: "length (getOrderedDevices codeUnitCompare (devicesState 25\<lparr>listPageIndex := 1\<rparr>)) = 25"
    by (simp add: devicesState_ordered_length)
  have v: "listView (devicesState 25\<lparr>listPageIndex := 1\<rparr>) = VDevices"
    "listPageIndex (devicesState 25\<lparr>listPageIndex := 1\<rparr>) = 1"
    by (simp_all add: devicesState_def)
  have h: "listPageIndex (exampleHome\<lparr>listView := v'\<rparr>) = 0" for v'
    by (simp add: exampleHome_def buildInitialState_def)
  show ?thesis
    using d v deviceSlot_25_20 listSlot_2_1 h
      exampleHome_lengths [of codeUnitCompare]
      C2_index_inverse [of 20 codeUnitCompare "devicesState 25\<lparr>listPageIndex := 1\<rparr>" 1 6]
      C2_index_inverse [of 1 codeUnitCompare "exampleHome\<lparr>listView := VScenes\<rparr>" 0 2]
      C2_index_inverse [of 1 codeUnitCompare "exampleHome\<lparr>listView := VRooms\<rparr>" 0 2]
      C2_index_inverse [of 0 codeUnitCompare "exampleHome\<lparr>listView := VFavorites\<rparr>" 0 1]
    by simp
qed

subsection \<open>The gesture session\<close>

lemma run_Nil [simp]: "run lc real s [] = s"
  by (simp add: run_def)

lemma run_Cons [simp]: "run lc real s (e # tr) = run lc real (deliver lc real s e) tr"
  by (simp add: run_def)

lemma run_append: "run lc real s (a @ b) = run lc real (run lc real s a) b"
  by (simp add: run_def)

lemma onTimer_idle: "commitTimeoutId (gesture s) = None \<Longrightarrow> onTimer lc t s = s"
  by (simp add: onTimer_def)

lemma onTimer_early: "commitTimeoutId (gesture s) = Some d \<Longrightarrow> t < d \<Longrightarrow> onTimer lc t s = s"
  by (simp add: onTimer_def)

lemma onTimer_due:
  "commitTimeoutId (gesture s) = Some d \<Longrightarrow> d \<le> t \<Longrightarrow> onTimer lc t s = commitTap lc s"
  by (simp add: onTimer_def)

lemma emitted_onTap [simp]: "emitted (onTap real p m t s) = emitted s"
  by (simp add: onTap_def Let_def)

lemma store_onTap [simp]: "store (onTap real p m t s) = (store s)\<lparr>focusedListIndex := p\<rparr>"
  by (simp add: onTap_def Let_def)

lemma emitted_deliver_grows: "\<exists>xs. emitted (deliver lc real s e) = emitted s @ xs"
  by (cases e) (auto simp: onTimer_def commitTap_def Let_def split: option.splits)

lemma emitted_run_grows: "\<exists>xs. emitted (run lc real s tr) = emitted s @ xs"
proof (induction tr arbitrary: s)
  case Nil
  then show ?case by simp
next
  case (Cons e tr)
  obtain xs where "emitted (deliver lc real s e) = emitted s @ xs"
    using emitted_deliver_grows by blast
  moreover obtain ys where
    "emitted (run lc real (deliver lc real s e) tr) = emitted (deliver lc real s e) @ ys"
    using Cons.IH by blast
  ultimately show ?case by simp
qed

lemma emitted_prefix_unchanged:
  assumes "emitted (run lc real s tr) = emitted s"
  shows "emitted (run lc real s (take k tr)) = emitted s"
proof -
  obtain xs where xs: "emitted (run lc real s (take k tr)) = emitted s @ xs"
    using emitted_run_grows by blast
  obtain ys where "emitted (run lc real (run lc real s (take k tr)) (drop k tr))
      = emitted (run lc real s (take k tr)) @ ys"
    using emitted_run_grows by blast
  then have "emitted (run lc real s tr) = emitted s @ xs @ ys"
    using xs run_append [of lc real s "take k tr" "drop k tr"] by simp
  then show ?thesis using assms xs by simp
qed

lemma dropWhile_keeps:
  "\<not> P a \<Longrightarrow> \<exists>zs. dropWhile P (ys @ a # rest) = zs @ a # rest"
proof (induction ys)
  case Nil
  then show ?case by (intro exI [of _ "[]"]) simp
next
  case (Cons y ys)
  then show ?case
    by (cases "P y") (auto intro: exI [of _ "y # ys"])
qed

lemma two_distinct_remdups:
  assumes "a \<in> set xs" "b \<in> set xs" "a \<noteq> b"
  shows "2 \<le> length (remdups xs)"
proof -
  have "card {a, b} \<le> card (set xs)"
    using assms by (intro card_mono) auto
  then show ?thesis using assms by (simp add: length_remdups_card_conv)
qed

text \<open>A single tap leaves the session on the tapped position, whatever came before.\<close>

lemma onTap_position:
  "lastTapIndex (gesture (onTap real p (Some 1) t s)) = p
   \<and> lastTapTime (gesture (onTap real p (Some 1) t s)) = t
   \<and> recentListIndices (gesture (onTap real p (Some 1) t s)) \<noteq> []
   \<and> last (recentListIndices (gesture (onTap real p (Some 1) t s))) = (p, t)
   \<and> (commitTimeoutId (gesture (onTap real p (Some 1) t s)) = None
      \<or> commitTimeoutId (gesture (onTap real p (Some 1) t s)) = Some (t + TAP_COMMIT_MS real))"
proof -
  have k: "\<not> snd (p, t) < t - SCROLL_WINDOW_MS" by (simp add: SCROLL_WINDOW_MS_def)
  obtain zs where zs: "dropWhile (\<lambda>e. snd e < t - SCROLL_WINDOW_MS)
      (recentListIndices (gesture s) @ [(p, t)]) = zs @ [(p, t)]"
    using dropWhile_keeps [of "\<lambda>e. snd e < t - SCROLL_WINDOW_MS" "(p, t)"
        "recentListIndices (gesture s)" "[]"] k by auto
  show ?thesis
    by (auto simp: onTap_def Let_def zs)
qed

text \<open>
  A single tap on a new position, while the previous tap is still within the scroll
  window, schedules no commit.
\<close>

lemma onTap_scrolling:
  assumes inv: "recentListIndices (gesture s) \<noteq> []"
      "last (recentListIndices (gesture s)) = (lastTapIndex (gesture s), lastTapTime (gesture s))"
    and new: "p \<noteq> lastTapIndex (gesture s)"
    and near: "t - lastTapTime (gesture s) \<le> SCROLL_WINDOW_MS"
  shows "commitTimeoutId (gesture (onTap real p (Some 1) t s)) = None"
proof -
  let ?g = "gesture s"
  let ?P = "\<lambda>e. snd e < t - SCROLL_WINDOW_MS"
  obtain ys where ys: "recentListIndices ?g = ys @ [(lastTapIndex ?g, lastTapTime ?g)]"
    using inv by (metis append_butlast_last_id)
  have k: "\<not> ?P (lastTapIndex ?g, lastTapTime ?g)" using near by simp
  obtain zs where zs: "dropWhile ?P (recentListIndices ?g @ [(p, t)])
      = zs @ [(lastTapIndex ?g, lastTapTime ?g), (p, t)]"
    using dropWhile_keeps [of ?P "(lastTapIndex ?g, lastTapTime ?g)" ys "[(p, t)]"] k ys by auto
  have "2 \<le> length (remdups (map fst (dropWhile ?P (recentListIndices ?g @ [(p, t)]))))"
    unfolding zs by (rule two_distinct_remdups [of "lastTapIndex ?g" _ p]) (use new in auto)
  then show ?thesis
    using new by (simp add: onTap_def Let_def)
qed


lemma scroll_phase_settled:
  assumes "commitTimeoutId (gesture s) = None"
    and "recentListIndices (gesture s) \<noteq> []"
    and "last (recentListIndices (gesture s)) = (lastTapIndex (gesture s), lastTapTime (gesture s))"
    and "\<forall>e\<in>set tr. is_Tap e \<longrightarrow> multiplicity e = 1"
    and "successively (\<lambda>a b. pos a < pos b \<and> time b - time a \<le> SCROLL_WINDOW_MS)
           (Tap (lastTapIndex (gesture s)) 1 (lastTapTime (gesture s)) # filter is_Tap tr)"
  shows "emitted (run lc real s tr) = emitted s
       \<and> commitTimeoutId (gesture (run lc real s tr)) = None"
  using assms
proof (induction tr arbitrary: s)
  case Nil
  then show ?case by simp
next
  case (Cons e tr)
  show ?case
  proof (cases e)
    case (Timer u)
    then have "deliver lc real s e = s" using Cons.prems(1) by (simp add: onTimer_idle)
    then show ?thesis using Cons.IH [of s] Cons.prems Timer by simp
  next
    case (Tap p m t)
    have m: "m = 1" using Cons.prems(4) Tap by simp
    let ?s' = "onTap real p (Some 1) t s"
    have step: "lastTapIndex (gesture s) < p" "t - lastTapTime (gesture s) \<le> SCROLL_WINDOW_MS"
      and rest: "successively (\<lambda>a b. pos a < pos b \<and> time b - time a \<le> SCROLL_WINDOW_MS)
           (Tap p 1 t # filter is_Tap tr)"
      using Cons.prems(5) Tap m by simp_all
    have none: "commitTimeoutId (gesture ?s') = None"
      using onTap_scrolling [OF Cons.prems(2,3), of p t real] step by simp
    have pos: "lastTapIndex (gesture ?s') = p" "lastTapTime (gesture ?s') = t"
      "recentListIndices (gesture ?s') \<noteq> []"
      "last (recentListIndices (gesture ?s')) = (p, t)"
      using onTap_position [of real p t s] by simp_all
    have "emitted (run lc real ?s' tr) = emitted ?s'
       \<and> commitTimeoutId (gesture (run lc real ?s' tr)) = None"
      using Cons.IH [of ?s'] none pos rest Cons.prems(4) by simp
    then show ?thesis using Tap m by simp
  qed
qed

lemma scroll_phase_pending:
  assumes "commitTimeoutId (gesture s) = Some d"
    and "lastTapTime (gesture s) + SCROLL_WINDOW_MS < d"
    and "recentListIndices (gesture s) \<noteq> []"
    and "last (recentListIndices (gesture s)) = (lastTapIndex (gesture s), lastTapTime (gesture s))"
    and "sorted (map time tr)"
    and "\<forall>e\<in>set tr. is_Tap e \<longrightarrow> multiplicity e = 1"
    and "successively (\<lambda>a b. pos a < pos b \<and> time b - time a \<le> SCROLL_WINDOW_MS)
           (Tap (lastTapIndex (gesture s)) 1 (lastTapTime (gesture s)) # filter is_Tap tr)"
    and "filter is_Tap tr \<noteq> []"
  shows "emitted (run lc real s tr) = emitted s
       \<and> commitTimeoutId (gesture (run lc real s tr)) = None"
  using assms
proof (induction tr arbitrary: s)
  case Nil
  then show ?case by simp
next
  case (Cons e tr)
  show ?case
  proof (cases e)
    case (Timer u)
    have ne: "filter is_Tap tr \<noteq> []" using Cons.prems(8) Timer by simp
    then obtain e' rest where ft: "filter is_Tap tr = e' # rest"
      by (cases "filter is_Tap tr") auto
    have "e' \<in> set (filter is_Tap tr)" unfolding ft by simp
    then have e': "e' \<in> set tr" by simp
    have "successively (\<lambda>a b. pos a < pos b \<and> time b - time a \<le> SCROLL_WINDOW_MS)
           (Tap (lastTapIndex (gesture s)) 1 (lastTapTime (gesture s)) # e' # rest)"
      using Cons.prems(7) Timer ft by simp
    then have "time e' - lastTapTime (gesture s) \<le> SCROLL_WINDOW_MS"
      by simp
    moreover have "u \<le> time e'" using Cons.prems(5) Timer e' by auto
    ultimately have "u < d" using Cons.prems(2) by linarith
    then have "deliver lc real s e = s" using Cons.prems(1) Timer by (simp add: onTimer_early)
    then show ?thesis using Cons.IH [of s] Cons.prems Timer by simp
  next
    case (Tap p m t)
    have m: "m = 1" using Cons.prems(6) Tap by simp
    let ?s' = "onTap real p (Some 1) t s"
    have step: "lastTapIndex (gesture s) < p" "t - lastTapTime (gesture s) \<le> SCROLL_WINDOW_MS"
      and rest: "successively (\<lambda>a b. pos a < pos b \<and> time b - time a \<le> SCROLL_WINDOW_MS)
           (Tap p 1 t # filter is_Tap tr)"
      using Cons.prems(7) Tap m by simp_all
    have none: "commitTimeoutId (gesture ?s') = None"
      using onTap_scrolling [OF Cons.prems(3,4), of p t real] step by simp
    have pos: "lastTapIndex (gesture ?s') = p" "lastTapTime (gesture ?s') = t"
      "recentListIndices (gesture ?s') \<noteq> []"
      "last (recentListIndices (gesture ?s')) = (p, t)"
      using onTap_position [of real p t s] by simp_all
    have "emitted (run lc real ?s' tr) = emitted ?s'
       \<and> commitTimeoutId (gesture (run lc real ?s' tr)) = None"
      using scroll_phase_settled [of ?s' tr lc real] none pos rest Cons.prems(6) by simp
    then show ?thesis using Tap m by simp
  qed
qed

lemma scroll_from_rest:
  assumes "commitTimeoutId (gesture s) = None"
    and "sorted (map time tr)"
    and "\<forall>e\<in>set tr. is_Tap e \<longrightarrow> multiplicity e = 1"
    and "successively (\<lambda>a b. pos a < pos b \<and> time b - time a \<le> SCROLL_WINDOW_MS)
           (filter is_Tap tr)"
    and "2 \<le> length (filter is_Tap tr)"
  shows "emitted (run lc real s tr) = emitted s
       \<and> commitTimeoutId (gesture (run lc real s tr)) = None"
  using assms
proof (induction tr arbitrary: s)
  case Nil
  then show ?case by simp
next
  case (Cons e tr)
  show ?case
  proof (cases e)
    case (Timer u)
    then have "deliver lc real s e = s" using Cons.prems(1) by (simp add: onTimer_idle)
    then show ?thesis using Cons.IH [of s] Cons.prems Timer by simp
  next
    case (Tap p m t)
    have m: "m = 1" using Cons.prems(3) Tap by simp
    let ?s' = "onTap real p (Some 1) t s"
    have more: "filter is_Tap tr \<noteq> []" using Cons.prems(5) Tap by auto
    have rest: "successively (\<lambda>a b. pos a < pos b \<and> time b - time a \<le> SCROLL_WINDOW_MS)
           (Tap p 1 t # filter is_Tap tr)"
      using Cons.prems(4) Tap m by simp
    have srt: "sorted (map time tr)" using Cons.prems(2) by simp
    have pos: "lastTapIndex (gesture ?s') = p" "lastTapTime (gesture ?s') = t"
      "recentListIndices (gesture ?s') \<noteq> []"
      "last (recentListIndices (gesture ?s')) = (p, t)"
      and sched: "commitTimeoutId (gesture ?s') = None
        \<or> commitTimeoutId (gesture ?s') = Some (t + TAP_COMMIT_MS real)"
      using onTap_position [of real p t s] by simp_all
    have "emitted (run lc real ?s' tr) = emitted ?s'
       \<and> commitTimeoutId (gesture (run lc real ?s' tr)) = None"
    proof (cases "commitTimeoutId (gesture ?s') = None")
      case True
      then show ?thesis
        using scroll_phase_settled [of ?s' tr lc real] pos rest Cons.prems(3) by simp
    next
      case False
      with sched have d: "commitTimeoutId (gesture ?s') = Some (t + TAP_COMMIT_MS real)"
        by simp
      have "lastTapTime (gesture ?s') + SCROLL_WINDOW_MS < t + TAP_COMMIT_MS real"
        using pos by (simp add: SCROLL_WINDOW_MS_def TAP_COMMIT_MS_def)
      then show ?thesis
        using scroll_phase_pending [OF d _ pos(3), of tr lc] pos rest srt more Cons.prems(3)
        by simp
    qed
    then show ?thesis using Tap m by simp
  qed
qed


lemma onTap_multiple:
  "m \<noteq> 1 \<Longrightarrow>
     commitTimeoutId (gesture (onTap real p (Some m) now s)) = Some (now + TAP_COMMIT_MS real)"
  by (simp add: onTap_def Let_def)

lemma onTap_same_item:
  "p = lastTapIndex (gesture s) \<Longrightarrow> now - lastTapTime (gesture s) \<le> TAP_WINDOW_MS real \<Longrightarrow>
     commitTimeoutId (gesture (onTap real p taps now s)) = Some (now + TAP_COMMIT_MS real)"
  by (simp add: onTap_def Let_def)

lemma onTap_alone:
  assumes "\<forall>e\<in>set (recentListIndices (gesture s)). snd e < now - SCROLL_WINDOW_MS"
  shows "commitTimeoutId (gesture (onTap real p taps now s)) = Some (now + TAP_COMMIT_MS real)
       \<and> recentListIndices (gesture (onTap real p taps now s)) = [(p, now)]"
proof -
  have "dropWhile (\<lambda>e. snd e < now - SCROLL_WINDOW_MS) (recentListIndices (gesture s) @ [(p, now)])
      = dropWhile (\<lambda>e. snd e < now - SCROLL_WINDOW_MS) [(p, now)]"
    using assms by (intro dropWhile_append2) auto
  then have "dropWhile (\<lambda>e. snd e < now - SCROLL_WINDOW_MS)
      (recentListIndices (gesture s) @ [(p, now)]) = [(p, now)]"
    by (simp add: SCROLL_WINDOW_MS_def)
  then show ?thesis by (simp add: onTap_def Let_def)
qed

lemma onTap_repeat:
  assumes "p = lastTapIndex (gesture s)"
    and "\<forall>e\<in>set (recentListIndices (gesture s)). snd e \<le> lastTapTime (gesture s)"
  shows "commitTimeoutId (gesture (onTap real p taps now s)) = Some (now + TAP_COMMIT_MS real)"
proof (cases "now - lastTapTime (gesture s) \<le> TAP_WINDOW_MS real")
  case True
  then show ?thesis using assms(1) by (rule onTap_same_item [rotated])
next
  case False
  then have "lastTapTime (gesture s) < now - SCROLL_WINDOW_MS"
    by (simp add: TAP_WINDOW_MS_def SCROLL_WINDOW_MS_def split: if_splits)
  then have "\<forall>e\<in>set (recentListIndices (gesture s)). snd e < now - SCROLL_WINDOW_MS"
    using assms(2) by fastforce
  then show ?thesis using onTap_alone by blast
qed

text \<open>
  Claim C5. Scroll suppression. From a session with no commit pending, take any
  time-ordered run of at least two single taps at strictly increasing positions, each
  within the scroll window of the tap before it, with looks at the timer at any moments
  in between and after: no commit is ever produced (the commands emitted stay as they
  were after every prefix of the run) and no commit is pending at its end. A tap of any
  other multiplicity, such as a hardware double tap, and a repeat of the current
  position always schedule a commit.
\<close>

theorem C5_scroll_suppression:
  "(commitTimeoutId (gesture s) = None \<and> sorted (map time tr)
      \<and> (\<forall>e\<in>set tr. is_Tap e \<longrightarrow> multiplicity e = 1)
      \<and> successively (\<lambda>a b. pos a < pos b \<and> time b - time a \<le> SCROLL_WINDOW_MS)
           (filter is_Tap tr)
      \<and> 2 \<le> length (filter is_Tap tr) \<longrightarrow>
      (\<forall>k. emitted (run lc real s (take k tr)) = emitted s)
      \<and> commitTimeoutId (gesture (run lc real s tr)) = None)
   \<and> (m \<noteq> 1 \<longrightarrow>
        commitTimeoutId (gesture (onTap real p (Some m) now s)) = Some (now + TAP_COMMIT_MS real))
   \<and> (p = lastTapIndex (gesture s) \<and> now - lastTapTime (gesture s) \<le> TAP_WINDOW_MS real \<longrightarrow>
        commitTimeoutId (gesture (onTap real p taps now s)) = Some (now + TAP_COMMIT_MS real))
   \<and> (p = lastTapIndex (gesture s)
        \<and> (\<forall>e\<in>set (recentListIndices (gesture s)). snd e \<le> lastTapTime (gesture s)) \<longrightarrow>
        commitTimeoutId (gesture (onTap real p taps now s)) = Some (now + TAP_COMMIT_MS real))"
proof (intro conjI impI allI)
  assume a: "commitTimeoutId (gesture s) = None \<and> sorted (map time tr)
      \<and> (\<forall>e\<in>set tr. is_Tap e \<longrightarrow> multiplicity e = 1)
      \<and> successively (\<lambda>a b. pos a < pos b \<and> time b - time a \<le> SCROLL_WINDOW_MS)
           (filter is_Tap tr)
      \<and> 2 \<le> length (filter is_Tap tr)"
  then have r: "emitted (run lc real s tr) = emitted s
       \<and> commitTimeoutId (gesture (run lc real s tr)) = None"
    using scroll_from_rest [of s tr lc real] by blast
  then show "commitTimeoutId (gesture (run lc real s tr)) = None" by simp
  fix k
  show "emitted (run lc real s (take k tr)) = emitted s"
    using r emitted_prefix_unchanged by blast
next
  assume "m \<noteq> 1"
  then show "commitTimeoutId (gesture (onTap real p (Some m) now s))
      = Some (now + TAP_COMMIT_MS real)"
    by (rule onTap_multiple)
next
  assume "p = lastTapIndex (gesture s) \<and> now - lastTapTime (gesture s) \<le> TAP_WINDOW_MS real"
  then show "commitTimeoutId (gesture (onTap real p taps now s))
      = Some (now + TAP_COMMIT_MS real)"
    using onTap_same_item by blast
next
  assume "p = lastTapIndex (gesture s)
        \<and> (\<forall>e\<in>set (recentListIndices (gesture s)). snd e \<le> lastTapTime (gesture s))"
  then show "commitTimeoutId (gesture (onTap real p taps now s))
      = Some (now + TAP_COMMIT_MS real)"
    using onTap_repeat by blast
qed

theorem C5_scroll_suppression_witness:
  "emitted (run codeUnitCompare False
       \<lparr>store = exampleHome, gesture = initialGesture, emitted = []\<rparr>
       [Tap 1 1 1000, Timer 1100, Tap 2 1 1200, Tap 3 1 1500, Timer 5000]) = []
   \<and> commitTimeoutId (gesture (run codeUnitCompare False
       \<lparr>store = exampleHome, gesture = initialGesture, emitted = []\<rparr>
       [Tap 1 1 1000, Timer 1100, Tap 2 1 1200, Tap 3 1 1500, Timer 5000])) = None
   \<and> commitTimeoutId (gesture (onTap False 3 (Some 2) 1600
       \<lparr>store = exampleHome, gesture = initialGesture, emitted = []\<rparr>))
     = Some (1600 + TAP_COMMIT_MS False)"
proof -
  let ?s = "\<lparr>store = exampleHome, gesture = initialGesture, emitted = []\<rparr>"
  let ?tr = "[Tap 1 1 1000, Timer 1100, Tap 2 1 1200, Tap 3 1 1500, Timer 5000]"
  have h: "commitTimeoutId (gesture ?s) = None \<and> sorted (map time ?tr)
      \<and> (\<forall>e\<in>set ?tr. is_Tap e \<longrightarrow> multiplicity e = 1)
      \<and> successively (\<lambda>a b. pos a < pos b \<and> time b - time a \<le> SCROLL_WINDOW_MS)
           (filter is_Tap ?tr)
      \<and> 2 \<le> length (filter is_Tap ?tr)"
    by (simp add: initialGesture_def SCROLL_WINDOW_MS_def)
  have "(\<forall>k. emitted (run codeUnitCompare False ?s (take k ?tr)) = emitted ?s)
      \<and> commitTimeoutId (gesture (run codeUnitCompare False ?s ?tr)) = None"
    using h C5_scroll_suppression [of ?s ?tr codeUnitCompare False 2 3 1600] by blast
  then have "emitted (run codeUnitCompare False ?s (take 5 ?tr)) = emitted ?s
      \<and> commitTimeoutId (gesture (run codeUnitCompare False ?s ?tr)) = None"
    by blast
  moreover have "commitTimeoutId (gesture (onTap False 3 (Some 2) 1600 ?s))
     = Some (1600 + TAP_COMMIT_MS False)"
    using C5_scroll_suppression [of ?s ?tr codeUnitCompare False 2 3 1600] by simp
  ultimately show ?thesis by simp
qed

subsection \<open>Accumulating taps\<close>

lemma onTap_first:
  assumes "lastTapIndex (gesture s) = - 1" "tapCount (gesture s) = 0"
    and "\<forall>e\<in>set (recentListIndices (gesture s)). snd e < t - SCROLL_WINDOW_MS"
  shows "onTap real p (Some 1) t s
     = s\<lparr>store := (store s)\<lparr>focusedListIndex := p\<rparr>,
         gesture := (gesture s)\<lparr>lastTapTime := t, lastTapIndex := p, tapCount := 1,
           commitTimeoutId := Some (t + TAP_COMMIT_MS real),
           recentListIndices := [(p, t)]\<rparr>\<rparr>"
proof -
  have "dropWhile (\<lambda>e. snd e < t - SCROLL_WINDOW_MS) (recentListIndices (gesture s) @ [(p, t)])
      = dropWhile (\<lambda>e. snd e < t - SCROLL_WINDOW_MS) [(p, t)]"
    using assms(3) by (intro dropWhile_append2) auto
  then have "dropWhile (\<lambda>e. snd e < t - SCROLL_WINDOW_MS)
      (recentListIndices (gesture s) @ [(p, t)]) = [(p, t)]"
    by (simp add: SCROLL_WINDOW_MS_def)
  then show ?thesis using assms(1,2) by (auto simp: onTap_def Let_def)
qed

lemma onTap_again:
  assumes "lastTapIndex (gesture s) = p" "t - lastTapTime (gesture s) \<le> TAP_WINDOW_MS real"
  shows "lastTapIndex (gesture (onTap real p (Some 1) t s)) = p
       \<and> lastTapTime (gesture (onTap real p (Some 1) t s)) = t
       \<and> tapCount (gesture (onTap real p (Some 1) t s)) = min (tapCount (gesture s) + 1) 4
       \<and> commitTimeoutId (gesture (onTap real p (Some 1) t s)) = Some (t + TAP_COMMIT_MS real)"
  using assms by (simp add: onTap_def Let_def)

lemma commitTap_result:
  assumes "lastTapIndex (gesture s) = p" "tapCount (gesture s) = c"
  shows "emitted (commitTap lc s) = emitted s @ Committed p c # commitTapCommands lc (store s) p c"
    and "store (commitTap lc s) = applyCommands (store s) (commitTapCommands lc (store s) p c)"
    and "lastTapIndex (gesture (commitTap lc s)) = - 1"
    and "tapCount (gesture (commitTap lc s)) = 0"
    and "commitTimeoutId (gesture (commitTap lc s)) = None"
  using assms by (simp_all add: commitTap_def Let_def)

lemma getTotalPages_one:
  "\<not> (listView st = VScenes \<or> listView st = VRooms \<or> listView st = VDevices
        \<or> listView st = VFavorites) \<Longrightarrow> getTotalPages lc st = 1"
  by (cases "listView st")
    (simp_all add: getTotalPages_def DIM_LEVELS_def DIM_LEVELS_PER_PAGE_def SCENES_PER_PAGE_def
      LIST_MAX_ITEMS_def)

lemma several_pages_paginated:
  assumes "0 \<le> listPageIndex st" "listPageIndex st < getTotalPages lc st - 1"
  shows "isPaginatedList (listView st)"
proof -
  have "listView st = VScenes \<or> listView st = VRooms \<or> listView st = VDevices
        \<or> listView st = VFavorites"
    using assms getTotalPages_one [of st lc] by fastforce
  then show ?thesis by (auto simp: isPaginatedList_def)
qed

lemma commit_three_or_more:
  assumes "3 \<le> c" "isPaginatedList (listView st)" "listPageIndex st \<noteq> getTotalPages lc st - 1"
  shows "commitTapCommands lc st p c
     = [Dispatched (LIST_PAGE (getTotalPages lc st - 1)), RefreshPage]"
  unfolding commitTapCommands_def Let_def
  using assms by (auto simp: isPaginatedList_def)

lemma commit_two_previous:
  assumes "isPaginatedList (listView st)" "listPageIndex st \<noteq> 0"
  shows "commitTapCommands lc st p 2 = [Dispatched (LIST_PAGE (listPageIndex st - 1)), RefreshPage]"
  unfolding commitTapCommands_def Let_def
  using assms by (auto simp: isPaginatedList_def)

lemma commit_two_back:
  assumes "listPageIndex st = 0"
  shows "listView st = VScenes \<or> listView st = VFavorites \<Longrightarrow>
           commitTapCommands lc st p 2 = [Dispatched (NAV_VIEW VMain), RefreshPage]"
    and "listView st = VDevices \<Longrightarrow>
           commitTapCommands lc st p 2 = [Dispatched (NAV_VIEW VRooms), RefreshPage]"
    and "listView st = VDeviceDim \<Longrightarrow>
           commitTapCommands lc st p 2 = [Dispatched (NAV_VIEW VDeviceDetail), RefreshPage]"
    and "listView st = VRoomAllDetail \<Longrightarrow>
           commitTapCommands lc st p 2 = [Dispatched (NAV_VIEW VDevices), RefreshPage]"
    and "listView st = VRoomAllDim \<Longrightarrow>
           commitTapCommands lc st p 2 = [Dispatched (NAV_VIEW VRoomAllDetail), RefreshPage]"
    and "listView st = VRooms \<Longrightarrow>
           commitTapCommands lc st 0 2 = [Dispatched (NAV_VIEW VMain), RefreshPage]"
    and "listView st = VDeviceDetail \<Longrightarrow>
           commitTapCommands lc st p 2
             = [Dispatched (NAV_VIEW (if selectedRoomId st = None then VFavorites else VDevices)),
                RefreshPage]"
  unfolding commitTapCommands_def Let_def
  using assms by (auto simp: isPaginatedList_def)


lemma accumulate_taps:
  assumes idle: "lastTapIndex (gesture s) = - 1" "tapCount (gesture s) = 0"
    and stale: "\<forall>e\<in>set (recentListIndices (gesture s)). snd e < t1 - SCROLL_WINDOW_MS"
    and w2: "t2 - t1 \<le> TAP_WINDOW_MS real"
    and w3: "t3 - t2 \<le> TAP_WINDOW_MS real"
  shows "lastTapIndex (gesture (run lc real s [Tap p 1 t1])) = p
       \<and> tapCount (gesture (run lc real s [Tap p 1 t1])) = 1
       \<and> commitTimeoutId (gesture (run lc real s [Tap p 1 t1])) = Some (t1 + TAP_COMMIT_MS real)
       \<and> store (run lc real s [Tap p 1 t1]) = (store s)\<lparr>focusedListIndex := p\<rparr>
       \<and> emitted (run lc real s [Tap p 1 t1]) = emitted s"
    and "lastTapIndex (gesture (run lc real s [Tap p 1 t1, Tap p 1 t2])) = p
       \<and> tapCount (gesture (run lc real s [Tap p 1 t1, Tap p 1 t2])) = 2
       \<and> commitTimeoutId (gesture (run lc real s [Tap p 1 t1, Tap p 1 t2]))
           = Some (t2 + TAP_COMMIT_MS real)
       \<and> store (run lc real s [Tap p 1 t1, Tap p 1 t2]) = (store s)\<lparr>focusedListIndex := p\<rparr>
       \<and> emitted (run lc real s [Tap p 1 t1, Tap p 1 t2]) = emitted s"
    and "lastTapIndex (gesture (run lc real s [Tap p 1 t1, Tap p 1 t2, Tap p 1 t3])) = p
       \<and> tapCount (gesture (run lc real s [Tap p 1 t1, Tap p 1 t2, Tap p 1 t3])) = 3
       \<and> commitTimeoutId (gesture (run lc real s [Tap p 1 t1, Tap p 1 t2, Tap p 1 t3]))
           = Some (t3 + TAP_COMMIT_MS real)
       \<and> store (run lc real s [Tap p 1 t1, Tap p 1 t2, Tap p 1 t3])
           = (store s)\<lparr>focusedListIndex := p\<rparr>
       \<and> emitted (run lc real s [Tap p 1 t1, Tap p 1 t2, Tap p 1 t3]) = emitted s"
proof -
  let ?s1 = "onTap real p (Some 1) t1 s"
  let ?s2 = "onTap real p (Some 1) t2 ?s1"
  let ?s3 = "onTap real p (Some 1) t3 ?s2"
  have g1: "lastTapIndex (gesture ?s1) = p" "tapCount (gesture ?s1) = 1"
    "lastTapTime (gesture ?s1) = t1"
    "commitTimeoutId (gesture ?s1) = Some (t1 + TAP_COMMIT_MS real)"
    using onTap_first [OF idle stale, of real p] by simp_all
  have g2: "lastTapIndex (gesture ?s2) = p" "tapCount (gesture ?s2) = 2"
    "lastTapTime (gesture ?s2) = t2"
    "commitTimeoutId (gesture ?s2) = Some (t2 + TAP_COMMIT_MS real)"
    using onTap_again [of ?s1 p t2 real] g1 w2 by simp_all
  have g3: "lastTapIndex (gesture ?s3) = p" "tapCount (gesture ?s3) = 3"
    "commitTimeoutId (gesture ?s3) = Some (t3 + TAP_COMMIT_MS real)"
    using onTap_again [of ?s2 p t3 real] g2 w3 by simp_all
  show "lastTapIndex (gesture (run lc real s [Tap p 1 t1])) = p
       \<and> tapCount (gesture (run lc real s [Tap p 1 t1])) = 1
       \<and> commitTimeoutId (gesture (run lc real s [Tap p 1 t1])) = Some (t1 + TAP_COMMIT_MS real)
       \<and> store (run lc real s [Tap p 1 t1]) = (store s)\<lparr>focusedListIndex := p\<rparr>
       \<and> emitted (run lc real s [Tap p 1 t1]) = emitted s"
    using g1 by simp
  show "lastTapIndex (gesture (run lc real s [Tap p 1 t1, Tap p 1 t2])) = p
       \<and> tapCount (gesture (run lc real s [Tap p 1 t1, Tap p 1 t2])) = 2
       \<and> commitTimeoutId (gesture (run lc real s [Tap p 1 t1, Tap p 1 t2]))
           = Some (t2 + TAP_COMMIT_MS real)
       \<and> store (run lc real s [Tap p 1 t1, Tap p 1 t2]) = (store s)\<lparr>focusedListIndex := p\<rparr>
       \<and> emitted (run lc real s [Tap p 1 t1, Tap p 1 t2]) = emitted s"
    using g2 by simp
  show "lastTapIndex (gesture (run lc real s [Tap p 1 t1, Tap p 1 t2, Tap p 1 t3])) = p
       \<and> tapCount (gesture (run lc real s [Tap p 1 t1, Tap p 1 t2, Tap p 1 t3])) = 3
       \<and> commitTimeoutId (gesture (run lc real s [Tap p 1 t1, Tap p 1 t2, Tap p 1 t3]))
           = Some (t3 + TAP_COMMIT_MS real)
       \<and> store (run lc real s [Tap p 1 t1, Tap p 1 t2, Tap p 1 t3])
           = (store s)\<lparr>focusedListIndex := p\<rparr>
       \<and> emitted (run lc real s [Tap p 1 t1, Tap p 1 t2, Tap p 1 t3]) = emitted s"
    using g3 by simp
qed

lemma run_then_timer:
  assumes "lastTapIndex (gesture (run lc real s tr)) = p
       \<and> tapCount (gesture (run lc real s tr)) = c
       \<and> commitTimeoutId (gesture (run lc real s tr)) = Some d
       \<and> store (run lc real s tr) = st
       \<and> emitted (run lc real s tr) = emitted s"
    and "d \<le> u"
  shows "emitted (run lc real s (tr @ [Timer u]))
           = emitted s @ Committed p c # commitTapCommands lc st p c
       \<and> store (run lc real s (tr @ [Timer u])) = applyCommands st (commitTapCommands lc st p c)
       \<and> lastTapIndex (gesture (run lc real s (tr @ [Timer u]))) = - 1
       \<and> tapCount (gesture (run lc real s (tr @ [Timer u]))) = 0
       \<and> commitTimeoutId (gesture (run lc real s (tr @ [Timer u]))) = None"
proof -
  have "run lc real s (tr @ [Timer u]) = commitTap lc (run lc real s tr)"
    using assms by (simp add: run_append onTimer_due)
  then show ?thesis
    using assms(1) commitTap_result [of "run lc real s tr" p c lc] by simp
qed


text \<open>
  Gesture accumulation. From an idle session (no position, count 0, no commit pending,
  no recent tap within the scroll window), single taps at one position \<open>p\<close>, each within
  the tap window of the one before, followed by the commit timer coming due: one tap
  commits position \<open>p\<close> with count 1, two taps with count 2, three taps with count 3, and
  the commands emitted are those of the router for that position and count, after which
  the session is idle again. In a paginated list the router turns a count of 3 or more
  on any page but the last into the jump to the last page (and a page index from 0 up to
  but not including the last is only found in a paginated list), and a count of 2 into
  the previous page when not on the first page; on the first page of the scenes,
  favourites, devices, dimming and room-wide views a count of 2 is the step back to the
  parent view. A look at the timer before the commit is due changes nothing.
\<close>

lemma gesture_accumulation:
  "(lastTapIndex (gesture s) = - 1 \<and> tapCount (gesture s) = 0
      \<and> commitTimeoutId (gesture s) = None
      \<and> (\<forall>e\<in>set (recentListIndices (gesture s)). snd e < t1 - SCROLL_WINDOW_MS)
      \<and> t2 - t1 \<le> TAP_WINDOW_MS real \<and> t3 - t2 \<le> TAP_WINDOW_MS real \<longrightarrow>
      (t1 + TAP_COMMIT_MS real \<le> u \<longrightarrow>
         emitted (run lc real s [Tap p 1 t1, Timer u])
           = emitted s @ Committed p 1
               # commitTapCommands lc ((store s)\<lparr>focusedListIndex := p\<rparr>) p 1)
      \<and> (t2 + TAP_COMMIT_MS real \<le> u \<longrightarrow>
         emitted (run lc real s [Tap p 1 t1, Tap p 1 t2, Timer u])
           = emitted s @ Committed p 2
               # commitTapCommands lc ((store s)\<lparr>focusedListIndex := p\<rparr>) p 2)
      \<and> (t3 + TAP_COMMIT_MS real \<le> u \<longrightarrow>
         emitted (run lc real s [Tap p 1 t1, Tap p 1 t2, Tap p 1 t3, Timer u])
           = emitted s @ Committed p 3
               # commitTapCommands lc ((store s)\<lparr>focusedListIndex := p\<rparr>) p 3
         \<and> store (run lc real s [Tap p 1 t1, Tap p 1 t2, Tap p 1 t3, Timer u])
           = applyCommands ((store s)\<lparr>focusedListIndex := p\<rparr>)
               (commitTapCommands lc ((store s)\<lparr>focusedListIndex := p\<rparr>) p 3)
         \<and> lastTapIndex (gesture (run lc real s [Tap p 1 t1, Tap p 1 t2, Tap p 1 t3, Timer u]))
             = - 1
         \<and> tapCount (gesture (run lc real s [Tap p 1 t1, Tap p 1 t2, Tap p 1 t3, Timer u])) = 0
         \<and> commitTimeoutId
             (gesture (run lc real s [Tap p 1 t1, Tap p 1 t2, Tap p 1 t3, Timer u])) = None))
   \<and> (3 \<le> c \<and> isPaginatedList (listView st) \<and> listPageIndex st \<noteq> getTotalPages lc st - 1 \<longrightarrow>
        commitTapCommands lc st p c
          = [Dispatched (LIST_PAGE (getTotalPages lc st - 1)), RefreshPage])
   \<and> (0 \<le> listPageIndex st \<and> listPageIndex st < getTotalPages lc st - 1 \<longrightarrow>
        isPaginatedList (listView st))
   \<and> (isPaginatedList (listView st) \<and> listPageIndex st \<noteq> 0 \<longrightarrow>
        commitTapCommands lc st p 2 = [Dispatched (LIST_PAGE (listPageIndex st - 1)), RefreshPage])
   \<and> (listPageIndex st = 0 \<and> (listView st = VScenes \<or> listView st = VFavorites) \<longrightarrow>
        commitTapCommands lc st p 2 = [Dispatched (NAV_VIEW VMain), RefreshPage])
   \<and> (listPageIndex st = 0 \<and> listView st = VDevices \<longrightarrow>
        commitTapCommands lc st p 2 = [Dispatched (NAV_VIEW VRooms), RefreshPage])
   \<and> (listPageIndex st = 0 \<and> listView st = VDeviceDim \<longrightarrow>
        commitTapCommands lc st p 2 = [Dispatched (NAV_VIEW VDeviceDetail), RefreshPage])
   \<and> (listPageIndex st = 0 \<and> listView st = VRoomAllDetail \<longrightarrow>
        commitTapCommands lc st p 2 = [Dispatched (NAV_VIEW VDevices), RefreshPage])
   \<and> (listPageIndex st = 0 \<and> listView st = VRoomAllDim \<longrightarrow>
        commitTapCommands lc st p 2 = [Dispatched (NAV_VIEW VRoomAllDetail), RefreshPage])
   \<and> (commitTimeoutId (gesture s') = Some d \<and> u' < d \<longrightarrow> onTimer lc u' s' = s')"
proof (intro conjI impI)
  assume a: "lastTapIndex (gesture s) = - 1 \<and> tapCount (gesture s) = 0
      \<and> commitTimeoutId (gesture s) = None
      \<and> (\<forall>e\<in>set (recentListIndices (gesture s)). snd e < t1 - SCROLL_WINDOW_MS)
      \<and> t2 - t1 \<le> TAP_WINDOW_MS real \<and> t3 - t2 \<le> TAP_WINDOW_MS real"
  note acc = accumulate_taps [of s t1 t2 real t3 lc p]
  {
    assume "t1 + TAP_COMMIT_MS real \<le> u"
    then show "emitted (run lc real s [Tap p 1 t1, Timer u])
           = emitted s @ Committed p 1
               # commitTapCommands lc ((store s)\<lparr>focusedListIndex := p\<rparr>) p 1"
      using run_then_timer [of lc real s "[Tap p 1 t1]" p 1 _ _ u] acc(1) a by simp
  }
  {
    assume "t2 + TAP_COMMIT_MS real \<le> u"
    then show "emitted (run lc real s [Tap p 1 t1, Tap p 1 t2, Timer u])
           = emitted s @ Committed p 2
               # commitTapCommands lc ((store s)\<lparr>focusedListIndex := p\<rparr>) p 2"
      using run_then_timer [of lc real s "[Tap p 1 t1, Tap p 1 t2]" p 2 _ _ u] acc(2) a by simp
  }
  {
    assume "t3 + TAP_COMMIT_MS real \<le> u"
    then have r: "emitted (run lc real s ([Tap p 1 t1, Tap p 1 t2, Tap p 1 t3] @ [Timer u]))
           = emitted s @ Committed p 3
               # commitTapCommands lc ((store s)\<lparr>focusedListIndex := p\<rparr>) p 3
       \<and> store (run lc real s ([Tap p 1 t1, Tap p 1 t2, Tap p 1 t3] @ [Timer u]))
           = applyCommands ((store s)\<lparr>focusedListIndex := p\<rparr>)
               (commitTapCommands lc ((store s)\<lparr>focusedListIndex := p\<rparr>) p 3)
       \<and> lastTapIndex (gesture (run lc real s ([Tap p 1 t1, Tap p 1 t2, Tap p 1 t3] @ [Timer u])))
           = - 1
       \<and> tapCount (gesture (run lc real s ([Tap p 1 t1, Tap p 1 t2, Tap p 1 t3] @ [Timer u]))) = 0
       \<and> commitTimeoutId
           (gesture (run lc real s ([Tap p 1 t1, Tap p 1 t2, Tap p 1 t3] @ [Timer u]))) = None"
      using run_then_timer [of lc real s "[Tap p 1 t1, Tap p 1 t2, Tap p 1 t3]" p 3
          "t3 + TAP_COMMIT_MS real" "(store s)\<lparr>focusedListIndex := p\<rparr>" u] acc(3) a
      by blast
    from r show "emitted (run lc real s [Tap p 1 t1, Tap p 1 t2, Tap p 1 t3, Timer u])
           = emitted s @ Committed p 3
               # commitTapCommands lc ((store s)\<lparr>focusedListIndex := p\<rparr>) p 3"
      by simp
    from r show "store (run lc real s [Tap p 1 t1, Tap p 1 t2, Tap p 1 t3, Timer u])
           = applyCommands ((store s)\<lparr>focusedListIndex := p\<rparr>)
               (commitTapCommands lc ((store s)\<lparr>focusedListIndex := p\<rparr>) p 3)"
      by simp
    from r show "lastTapIndex
        (gesture (run lc real s [Tap p 1 t1, Tap p 1 t2, Tap p 1 t3, Timer u])) = - 1"
      by simp
    from r show "tapCount
        (gesture (run lc real s [Tap p 1 t1, Tap p 1 t2, Tap p 1 t3, Timer u])) = 0"
      by simp
    from r show "commitTimeoutId
        (gesture (run lc real s [Tap p 1 t1, Tap p 1 t2, Tap p 1 t3, Timer u])) = None"
      by simp
  }
next
  assume "3 \<le> c \<and> isPaginatedList (listView st)
      \<and> listPageIndex st \<noteq> getTotalPages lc st - 1"
  then show "commitTapCommands lc st p c
          = [Dispatched (LIST_PAGE (getTotalPages lc st - 1)), RefreshPage]"
    using commit_three_or_more by blast
next
  assume "0 \<le> listPageIndex st \<and> listPageIndex st < getTotalPages lc st - 1"
  then show "isPaginatedList (listView st)"
    using several_pages_paginated by blast
next
  assume "isPaginatedList (listView st) \<and> listPageIndex st \<noteq> 0"
  then show "commitTapCommands lc st p 2
      = [Dispatched (LIST_PAGE (listPageIndex st - 1)), RefreshPage]"
    using commit_two_previous by blast
next
  assume "listPageIndex st = 0 \<and> (listView st = VScenes \<or> listView st = VFavorites)"
  then show "commitTapCommands lc st p 2 = [Dispatched (NAV_VIEW VMain), RefreshPage]"
    using commit_two_back(1) by blast
next
  assume "listPageIndex st = 0 \<and> listView st = VDevices"
  then show "commitTapCommands lc st p 2 = [Dispatched (NAV_VIEW VRooms), RefreshPage]"
    using commit_two_back(2) by blast
next
  assume "listPageIndex st = 0 \<and> listView st = VDeviceDim"
  then show "commitTapCommands lc st p 2 = [Dispatched (NAV_VIEW VDeviceDetail), RefreshPage]"
    using commit_two_back(3) by blast
next
  assume "listPageIndex st = 0 \<and> listView st = VRoomAllDetail"
  then show "commitTapCommands lc st p 2 = [Dispatched (NAV_VIEW VDevices), RefreshPage]"
    using commit_two_back(4) by blast
next
  assume "listPageIndex st = 0 \<and> listView st = VRoomAllDim"
  then show "commitTapCommands lc st p 2 = [Dispatched (NAV_VIEW VRoomAllDetail), RefreshPage]"
    using commit_two_back(5) by blast
next
  assume "commitTimeoutId (gesture s') = Some d \<and> u' < d"
  then show "onTimer lc u' s' = s'" using onTimer_early by blast
qed


lemma devicesState_25_focused:
  "listView ((devicesState 25)\<lparr>focusedListIndex := f\<rparr>) = VDevices"
  "listPageIndex ((devicesState 25)\<lparr>focusedListIndex := f\<rparr>) = 0"
  "getTotalPages lc ((devicesState 25)\<lparr>focusedListIndex := f\<rparr>) = 2"
proof -
  have o: "getOrderedDevices lc ((devicesState 25)\<lparr>focusedListIndex := f\<rparr>)
      = getOrderedDevices lc (devicesState 25)"
    by (simp add: getOrderedDevices_def)
  show v: "listView ((devicesState 25)\<lparr>focusedListIndex := f\<rparr>) = VDevices"
    by (simp add: devicesState_def)
  show "listPageIndex ((devicesState 25)\<lparr>focusedListIndex := f\<rparr>) = 0"
    by (simp add: devicesState_def buildInitialState_def)
  show "getTotalPages lc ((devicesState 25)\<lparr>focusedListIndex := f\<rparr>) = 2"
    using v devicesState_ordered_length [of lc 25]
    by (simp add: getTotalPages_def o DEVICES_PER_PAGE_def SCENES_PER_PAGE_def
        LIST_MAX_ITEMS_def ceilDiv_def)
qed

lemma gesture_accumulation_example:
  "emitted (run codeUnitCompare False
       \<lparr>store = devicesState 25, gesture = initialGesture, emitted = []\<rparr>
       [Tap 3 1 1000, Tap 3 1 1300, Tap 3 1 1600, Timer 2100])
     = [Committed 3 3, Dispatched (LIST_PAGE 1), RefreshPage]
   \<and> emitted (run codeUnitCompare False
       \<lparr>store = devicesState 25, gesture = initialGesture, emitted = []\<rparr>
       [Tap 3 1 1000, Tap 3 1 1300, Timer 1800])
     = [Committed 3 2, Dispatched (NAV_VIEW VRooms), RefreshPage]
   \<and> emitted (run codeUnitCompare False
       \<lparr>store = devicesState 25, gesture = initialGesture, emitted = []\<rparr>
       [Tap 3 1 1000, Timer 1500])
     = Committed 3 1
       # commitTapCommands codeUnitCompare ((devicesState 25)\<lparr>focusedListIndex := 3\<rparr>) 3 1"
proof -
  let ?s = "\<lparr>store = devicesState 25, gesture = initialGesture, emitted = []\<rparr>"
  let ?st = "(devicesState 25)\<lparr>focusedListIndex := 3\<rparr>"
  have h: "lastTapIndex (gesture ?s) = - 1 \<and> tapCount (gesture ?s) = 0
      \<and> commitTimeoutId (gesture ?s) = None
      \<and> (\<forall>e\<in>set (recentListIndices (gesture ?s)). snd e < 1000 - SCROLL_WINDOW_MS)
      \<and> 1300 - 1000 \<le> TAP_WINDOW_MS False \<and> 1600 - 1300 \<le> TAP_WINDOW_MS False"
    by (simp add: initialGesture_def TAP_WINDOW_MS_def)
  have d: "1000 + TAP_COMMIT_MS False \<le> 1500" "1300 + TAP_COMMIT_MS False \<le> 1800"
    "1600 + TAP_COMMIT_MS False \<le> 2100"
    by (simp_all add: TAP_COMMIT_MS_def)
  have three: "(3::int) \<le> 3 \<and> isPaginatedList (listView ?st)
      \<and> listPageIndex ?st \<noteq> getTotalPages codeUnitCompare ?st - 1"
    by (simp add: devicesState_25_focused isPaginatedList_def)
  have two: "listPageIndex ?st = 0 \<and> listView ?st = VDevices"
    by (simp add: devicesState_25_focused)
  have r3: "emitted (run codeUnitCompare False ?s
        [Tap 3 1 1000, Tap 3 1 1300, Tap 3 1 1600, Timer 2100])
      = emitted ?s @ Committed 3 3 # commitTapCommands codeUnitCompare ?st 3 3"
    using h d(3)
      gesture_accumulation [of ?s 1000 1300 False 1600 2100 codeUnitCompare 3]
    by simp
  have r2: "emitted (run codeUnitCompare False ?s [Tap 3 1 1000, Tap 3 1 1300, Timer 1800])
      = emitted ?s @ Committed 3 2 # commitTapCommands codeUnitCompare ?st 3 2"
    using h d(2)
      gesture_accumulation [of ?s 1000 1300 False 1600 1800 codeUnitCompare 3]
    by simp
  have r1: "emitted (run codeUnitCompare False ?s [Tap 3 1 1000, Timer 1500])
      = emitted ?s @ Committed 3 1 # commitTapCommands codeUnitCompare ?st 3 1"
    using h d(1)
      gesture_accumulation [of ?s 1000 1300 False 1600 1500 codeUnitCompare 3]
    by simp
  have c3: "commitTapCommands codeUnitCompare ?st 3 3
      = [Dispatched (LIST_PAGE (getTotalPages codeUnitCompare ?st - 1)), RefreshPage]"
    using three
      gesture_accumulation [where c = 3 and st = ?st and lc = codeUnitCompare and p = 3]
    by blast
  have c2: "commitTapCommands codeUnitCompare ?st 3 2 = [Dispatched (NAV_VIEW VRooms), RefreshPage]"
    using two
      gesture_accumulation [where st = ?st and lc = codeUnitCompare and p = 3]
    by blast
  show ?thesis
    using r1 r2 r3 c2 c3 by (simp add: devicesState_25_focused)
qed

text \<open>The store after the commit of one tap and of two.\<close>

lemma gesture_commit_store:
  assumes idle: "lastTapIndex (gesture s) = - 1" "tapCount (gesture s) = 0"
    and stale: "\<forall>e\<in>set (recentListIndices (gesture s)). snd e < t1 - SCROLL_WINDOW_MS"
    and w2: "t2 - t1 \<le> TAP_WINDOW_MS real"
  shows "t1 + TAP_COMMIT_MS real \<le> u \<Longrightarrow>
           store (run lc real s [Tap p 1 t1, Timer u])
             = applyCommands ((store s)\<lparr>focusedListIndex := p\<rparr>)
                 (commitTapCommands lc ((store s)\<lparr>focusedListIndex := p\<rparr>) p 1)"
    and "t2 + TAP_COMMIT_MS real \<le> u \<Longrightarrow>
           store (run lc real s [Tap p 1 t1, Tap p 1 t2, Timer u])
             = applyCommands ((store s)\<lparr>focusedListIndex := p\<rparr>)
                 (commitTapCommands lc ((store s)\<lparr>focusedListIndex := p\<rparr>) p 2)"
proof -
  have w3: "t2 - t2 \<le> TAP_WINDOW_MS real" by (simp add: TAP_WINDOW_MS_def)
  note acc = accumulate_taps [OF idle stale w2 w3, of lc p]
  show "t1 + TAP_COMMIT_MS real \<le> u \<Longrightarrow>
           store (run lc real s [Tap p 1 t1, Timer u])
             = applyCommands ((store s)\<lparr>focusedListIndex := p\<rparr>)
                 (commitTapCommands lc ((store s)\<lparr>focusedListIndex := p\<rparr>) p 1)"
    using run_then_timer [OF acc(1), of u] by simp
  show "t2 + TAP_COMMIT_MS real \<le> u \<Longrightarrow>
           store (run lc real s [Tap p 1 t1, Tap p 1 t2, Timer u])
             = applyCommands ((store s)\<lparr>focusedListIndex := p\<rparr>)
                 (commitTapCommands lc ((store s)\<lparr>focusedListIndex := p\<rparr>) p 2)"
    using run_then_timer [OF acc(2), of u] by simp
qed

lemma commit_two_rooms:
  assumes "listView st = VRooms" "listPageIndex st = 0" "p \<noteq> 0"
  shows "commitTapCommands lc st p 2 = []"
  unfolding commitTapCommands_def Let_def
  using assms by (simp add: isPaginatedList_def)

lemma commit_main_not_single:
  assumes "listView st = VMain" "c \<noteq> 1"
  shows "commitTapCommands lc st p c = []"
  unfolding commitTapCommands_def Let_def
  using assms by simp

lemma applyCommands_dispatch:
  "applyCommands st [Dispatched a, RefreshPage] = reduce st a"
  by simp

lemma jump_to_last_page_store:
  assumes "3 \<le> c" "isPaginatedList (listView st)" "listPageIndex st \<noteq> getTotalPages lc st - 1"
  shows "applyCommands st (commitTapCommands lc st p c)
     = st\<lparr>listPageIndex := getTotalPages lc st - 1\<rparr>"
  using commit_three_or_more [OF assms] by simp

lemma previous_page_store:
  assumes "isPaginatedList (listView st)" "listPageIndex st \<noteq> 0"
  shows "applyCommands st (commitTapCommands lc st p 2)
     = st\<lparr>listPageIndex := listPageIndex st - 1\<rparr>"
  using commit_two_previous [OF assms] by simp

lemma exampleHome_rooms_labels:
  "listItemNamesForState codeUnitCompare (exampleHome\<lparr>listView := VRooms\<rparr>)
     = [LABEL_BACK, str ''Kitchen'', str ''Study'']"
proof -
  let ?st = "exampleHome\<lparr>listView := VRooms\<rparr>"
  have o: "getOrderedRooms codeUnitCompare ?st
      = [\<lparr>roomId = str ''r1'', roomName = str ''Kitchen''\<rparr>,
         \<lparr>roomId = str ''r2'', roomName = str ''Study''\<rparr>]"
    by (simp add: getOrderedRooms_def applyOrder_def exampleHome_def buildInitialState_def
        DEFAULT_PREFERENCES_def codeUnitCompare_def str_def)
  have p: "listPageIndex ?st = 0"
    by (simp add: exampleHome_def buildInitialState_def)
  have "roomNamesForListView codeUnitCompare ?st
      = LABEL_BACK # map (\<lambda>r. truncateName (getDisplayName ?st ERoom (roomId r) (roomName r))
            (str ''Room'')) (getOrderedRooms codeUnitCompare ?st)"
    using roomNames_paged [of codeUnitCompare ?st]
      paged_single_page [of "getOrderedRooms codeUnitCompare ?st"] p
    by (simp add: o)
  then show ?thesis
    unfolding o
    by (simp add: listItemNamesForState_def truncateName_def getDisplayName_def
        exampleHome_def buildInitialState_def DEFAULT_PREFERENCES_def str_def trim_def
        isWhiteSpace_def orElse_def LIST_ITEM_NAME_MAX_LEN_def)
qed

text \<open>
  Claim C4, where the code departs from it. In the rooms view on its first page, over
  the list Back, Kitchen, Study, two single taps at position 2 within the tap window,
  followed by the commit timer coming due, commit with count 2 and dispatch nothing: the
  store stays on the rooms view. The same taps step back to the main menu in the scenes
  view, and in the rooms view at position 0.
\<close>

theorem C4_rooms_double_tap:
  "listItemNamesForState codeUnitCompare (exampleHome\<lparr>listView := VRooms\<rparr>)
     = [LABEL_BACK, str ''Kitchen'', str ''Study'']
   \<and> emitted (run codeUnitCompare False
       \<lparr>store = exampleHome\<lparr>listView := VRooms\<rparr>, gesture = initialGesture, emitted = []\<rparr>
       [Tap 2 1 1000, Tap 2 1 1300, Timer 1800])
     = [Committed 2 2]
   \<and> listView (store (run codeUnitCompare False
       \<lparr>store = exampleHome\<lparr>listView := VRooms\<rparr>, gesture = initialGesture, emitted = []\<rparr>
       [Tap 2 1 1000, Tap 2 1 1300, Timer 1800]))
     = VRooms
   \<and> emitted (run codeUnitCompare False
       \<lparr>store = exampleHome\<lparr>listView := VScenes\<rparr>, gesture = initialGesture, emitted = []\<rparr>
       [Tap 2 1 1000, Tap 2 1 1300, Timer 1800])
     = [Committed 2 2, Dispatched (NAV_VIEW VMain), RefreshPage]
   \<and> listView (store (run codeUnitCompare False
       \<lparr>store = exampleHome\<lparr>listView := VScenes\<rparr>, gesture = initialGesture, emitted = []\<rparr>
       [Tap 2 1 1000, Tap 2 1 1300, Timer 1800]))
     = VMain
   \<and> emitted (run codeUnitCompare False
       \<lparr>store = exampleHome\<lparr>listView := VRooms\<rparr>, gesture = initialGesture, emitted = []\<rparr>
       [Tap 0 1 1000, Tap 0 1 1300, Timer 1800])
     = [Committed 0 2, Dispatched (NAV_VIEW VMain), RefreshPage]"
proof -
  have commit: "emitted (run codeUnitCompare False
         \<lparr>store = exampleHome\<lparr>listView := v\<rparr>, gesture = initialGesture, emitted = []\<rparr>
         [Tap p 1 1000, Tap p 1 1300, Timer 1800])
       = Committed p 2
         # commitTapCommands codeUnitCompare (exampleHome\<lparr>listView := v, focusedListIndex := p\<rparr>) p 2
     \<and> store (run codeUnitCompare False
         \<lparr>store = exampleHome\<lparr>listView := v\<rparr>, gesture = initialGesture, emitted = []\<rparr>
         [Tap p 1 1000, Tap p 1 1300, Timer 1800])
       = applyCommands (exampleHome\<lparr>listView := v, focusedListIndex := p\<rparr>)
           (commitTapCommands codeUnitCompare
              (exampleHome\<lparr>listView := v, focusedListIndex := p\<rparr>) p 2)" for v p
  proof -
    let ?s = "\<lparr>store = exampleHome\<lparr>listView := v\<rparr>, gesture = initialGesture, emitted = []\<rparr>"
    have acc: "lastTapIndex (gesture (run codeUnitCompare False ?s [Tap p 1 1000, Tap p 1 1300])) = p
       \<and> tapCount (gesture (run codeUnitCompare False ?s [Tap p 1 1000, Tap p 1 1300])) = 2
       \<and> commitTimeoutId (gesture (run codeUnitCompare False ?s [Tap p 1 1000, Tap p 1 1300]))
           = Some (1300 + TAP_COMMIT_MS False)
       \<and> store (run codeUnitCompare False ?s [Tap p 1 1000, Tap p 1 1300])
           = (store ?s)\<lparr>focusedListIndex := p\<rparr>
       \<and> emitted (run codeUnitCompare False ?s [Tap p 1 1000, Tap p 1 1300]) = emitted ?s"
      by (rule accumulate_taps(2) [of ?s 1000 1300 False 1300 codeUnitCompare p])
        (simp_all add: initialGesture_def TAP_WINDOW_MS_def)
    have due: "1300 + TAP_COMMIT_MS False \<le> 1800" by (simp add: TAP_COMMIT_MS_def)
    show ?thesis
      using run_then_timer [OF acc due] by simp
  qed
  have pg: "listPageIndex (exampleHome\<lparr>listView := v, focusedListIndex := p\<rparr>) = 0" for v p
    by (simp add: exampleHome_def buildInitialState_def)
  have rooms2: "commitTapCommands codeUnitCompare
      (exampleHome\<lparr>listView := VRooms, focusedListIndex := 2\<rparr>) 2 2 = []"
    by (rule commit_two_rooms) (simp_all add: pg)
  have scenes2: "commitTapCommands codeUnitCompare
      (exampleHome\<lparr>listView := VScenes, focusedListIndex := 2\<rparr>) 2 2
        = [Dispatched (NAV_VIEW VMain), RefreshPage]"
    by (rule commit_two_back(1)) (simp_all add: pg)
  have rooms0: "commitTapCommands codeUnitCompare
      (exampleHome\<lparr>listView := VRooms, focusedListIndex := 0\<rparr>) 0 2
        = [Dispatched (NAV_VIEW VMain), RefreshPage]"
    by (rule commit_two_back(6)) (simp_all add: pg)
  show ?thesis
    using commit [of VRooms 2] commit [of VScenes 2] commit [of VRooms 0]
      exampleHome_rooms_labels
    by (simp add: rooms2 scenes2 rooms0)
qed

text \<open>The whole handler is the mapper followed by the handling of the tap it yields.\<close>

lemma onEvent_tap:
  "mapEvenHubEvent sdk parse event (Some (store s)) = Some (TAP p m) \<Longrightarrow>
     onEvent sdk parse real event now s = onTap real p m now s"
  by (simp add: onEvent_def)

lemma onEvent_dropped:
  "mapEvenHubEvent sdk parse event (Some (store s)) = None \<Longrightarrow>
     onEvent sdk parse real event now s = s"
  by (simp add: onEvent_def)

text \<open>
  A slice of width \<open>c\<close> has at most \<open>c\<close> elements, so the composer never asks for a
  negative number of empty slots after the names of a page.
\<close>

lemma length_js_slice_width: "0 \<le> c \<Longrightarrow> int (length (js_slice xs a (a + c))) \<le> c"
  by (auto simp: js_slice_def Let_def min_def max_def)

end
